theory Spec2Isabelle
  imports Complex_Main "HOL-Library.AList"
begin

section \<open>Momentum bot: ledger, trend tracker and price arbiter\<close>

text \<open>
  A shallow embedding of \<^verbatim>\<open>app/config.py\<close>, \<^verbatim>\<open>app/trend_tracker.py\<close>,
  \<^verbatim>\<open>app/portfolio.py\<close> and the loops of \<^verbatim>\<open>app/bot.py\<close>.

  Conventions of the embedding:
  \<^item> The numbers of the code are binary64 floats. A real number of the model stands for
    the float nearest to it, and the arithmetic of the source is followed operation by
    operation on exact reals: rounding errors of the order of one unit in the last place
    are not modelled. The exception are the two places where the code subtracts two
    prices and compares the difference with the constant 0.05 (the stop loss and the rise
    of an uptrend): there the outcome at a decimal distance of exactly 0.05 depends on the
    rounding, so the subtraction and the constant are those of binary64 (\<open>py_sub\<close>,
    \<open>py_float\<close>).
  \<^item> The constants of \<^verbatim>\<open>config.py\<close> have their default values (no environment
    override).
  \<^item> Python dictionaries that are iterated (\<^verbatim>\<open>positions\<close>, \<^verbatim>\<open>price_map\<close>) are
    association lists in insertion order; \<open>AList.update\<close> replaces in place or appends,
    as a dictionary assignment does, \<open>AList.delete\<close> is \<^verbatim>\<open>del\<close>.
  \<^item> Wall-clock time stamps (\<^verbatim>\<open>entry_time\<close>, \<^verbatim>\<open>close_time\<close>, the capital time
    series) and log output are not modelled. The formatted resolution texts are kept as
    a datatype of their format arguments.
  \<^item> An exception of the source is a value \<open>Inl e\<close>.
\<close>

subsection \<open>config.py\<close>

definition ENTRY_YES_MIN :: real where "ENTRY_YES_MIN = 22 / 100"
definition ENTRY_YES_MAX :: real where "ENTRY_YES_MAX = 27 / 100"
definition TREND_MIN_RISE :: real where "TREND_MIN_RISE = 5 / 100"
definition TREND_MIN_OBSERVATIONS :: nat where "TREND_MIN_OBSERVATIONS = 4"
definition STOP_LOSS_DROP :: real where "STOP_LOSS_DROP = 5 / 100"
definition EXIT_1_THRESHOLD :: real where "EXIT_1_THRESHOLD = 31 / 100"
definition EXIT_2_THRESHOLD :: real where "EXIT_2_THRESHOLD = 37 / 100"
definition EXIT_3_THRESHOLD :: real where "EXIT_3_THRESHOLD = 43 / 100"
definition MAX_POSITIONS :: nat where "MAX_POSITIONS = 20"
definition POSITION_SIZE_MIN :: real where "POSITION_SIZE_MIN = 5 / 100"
definition POSITION_SIZE_MAX :: real where "POSITION_SIZE_MAX = 10 / 100"
definition MAX_REGION_EXPOSURE :: real where "MAX_REGION_EXPOSURE = 25 / 100"

definition REGION_MAP :: "(string \<times> string) list" where
  "REGION_MAP =
    [(''chicago'', ''midwest''), (''denver'', ''midwest''),
     (''dallas'', ''south''), (''houston'', ''south''),
     (''atlanta'', ''south''), (''miami'', ''south''), (''phoenix'', ''south''),
     (''boston'', ''northeast''), (''nyc'', ''northeast''),
     (''seattle'', ''pacific''), (''los-angeles'', ''pacific''),
     (''london'', ''europe''), (''paris'', ''europe''), (''ankara'', ''europe''),
     (''wellington'', ''southern''), (''buenos-aires'', ''southern''),
     (''sao-paulo'', ''southern''),
     (''seoul'', ''asia''), (''toronto'', ''north_america'')]"

text \<open>\<^verbatim>\<open>REGION_MAP.get(city, "other")\<close>\<close>

definition region_of :: "string \<Rightarrow> string" where
  "region_of city = (case map_of REGION_MAP city of None \<Rightarrow> ''other'' | Some r \<Rightarrow> r)"

subsection \<open>Binary floating point\<close>

text \<open>Rounding to the nearest integer, a tie to the even one.\<close>

definition round_half_even :: "real \<Rightarrow> int" where
  "round_half_even y =
     (let f = \<lfloor>y\<rfloor>; d = y - of_int f
      in if d < 1 / 2 then f else if 1 / 2 < d then f + 1
         else if even f then f else f + 1)"

text \<open>The binary64 float nearest to a real number: a mantissa of 53 bits in the binade
  \<open>2 ^ e \<le> \<bar>x\<bar> < 2 ^ (e + 1)\<close>, a tie to the even mantissa. Overflow and subnormal
  numbers are not modelled. This is what \<^verbatim>\<open>float("0.20")\<close> and the literal
  \<^verbatim>\<open>0.05\<close> denote.\<close>

definition py_float :: "real \<Rightarrow> real" where
  "py_float x =
     (if x = 0 then 0
      else let e = \<lfloor>log 2 \<bar>x\<bar>\<rfloor>; u = 2 powr (of_int e - 52)
           in of_int (round_half_even (x / u)) * u)"

text \<open>The float subtraction \<^verbatim>\<open>a - b\<close> of the floats that \<open>a\<close> and \<open>b\<close> stand for.\<close>

definition py_sub :: "real \<Rightarrow> real \<Rightarrow> real" where
  "py_sub a b = py_float (py_float a - py_float b)"

subsection \<open>trend\_tracker.py\<close>

definition MAX_HISTORY_PER_MARKET :: nat where "MAX_HISTORY_PER_MARKET = 50"

text \<open>The history \<^verbatim>\<open>{cid: [(ts, yes_price), ...]}\<close>.\<close>

type_synonym tracker = "string \<rightharpoonup> (real \<times> real) list"

text \<open>The slice \<^verbatim>\<open>xs[-k:]\<close>: the last \<open>k\<close> elements, the whole list when it is
  shorter, and the whole list when \<open>k = 0\<close> (\<^verbatim>\<open>xs[-0:]\<close> is \<^verbatim>\<open>xs[0:]\<close>).\<close>

definition py_last_n :: "nat \<Rightarrow> 'a list \<Rightarrow> 'a list" where
  "py_last_n k xs = (if k = 0 then xs else drop (length xs - k) xs)"

text \<open>\<^verbatim>\<open>self._history.get(condition_id, [])\<close>\<close>

definition history_of :: "tracker \<Rightarrow> string \<Rightarrow> (real \<times> real) list" where
  "history_of tr condition_id = (case tr condition_id of None \<Rightarrow> [] | Some h \<Rightarrow> h)"

text \<open>\<^verbatim>\<open>record(condition_id, yes_price)\<close>, with the time stamp read from the clock as
  an argument.\<close>

definition tracker_record :: "tracker \<Rightarrow> real \<Rightarrow> string \<Rightarrow> real \<Rightarrow> tracker" where
  "tracker_record tr ts condition_id yes_price =
     (let hist = history_of tr condition_id @ [(ts, yes_price)]
      in if MAX_HISTORY_PER_MARKET < length hist
         then tr(condition_id \<mapsto> py_last_n MAX_HISTORY_PER_MARKET hist)
         else tr(condition_id \<mapsto> hist))"

definition observation_count :: "tracker \<Rightarrow> string \<Rightarrow> nat" where
  "observation_count tr condition_id = length (history_of tr condition_id)"

text \<open>The loop \<^verbatim>\<open>for i in range(1, len(window)): if window[i] <= window[i-1]: return False\<close>;
  the result is whether the loop ran to its end.\<close>

function uptrend_loop :: "nat \<Rightarrow> real list \<Rightarrow> bool" where
  "uptrend_loop i window =
     (if i < length window
      then (if window ! i \<le> window ! (i - 1) then False else uptrend_loop (i + 1) window)
      else True)"
  by pat_completeness auto
termination
  by (relation "measure (\<lambda>(i, window). length window - i)") auto

definition has_uptrend :: "tracker \<Rightarrow> string \<Rightarrow> bool" where
  "has_uptrend tr condition_id =
     (let hist = history_of tr condition_id
      in if length hist < TREND_MIN_OBSERVATIONS then False
         else let window = map snd (py_last_n TREND_MIN_OBSERVATIONS hist)
              in if \<not> uptrend_loop 1 window then False
                 else py_float TREND_MIN_RISE \<le> py_sub (last window) (hd window))"

subsection \<open>bot.py: position sizing\<close>

definition calc_position_size :: "real \<Rightarrow> real \<Rightarrow> real" where
  "calc_position_size capital_disponible yes_price =
     (let price_range = ENTRY_YES_MAX - ENTRY_YES_MIN;
          pct = (if price_range \<le> 0 then POSITION_SIZE_MIN
                 else let t = (yes_price - ENTRY_YES_MIN) / price_range;
                          t = max 0 (min 1 t)
                      in POSITION_SIZE_MIN + t * (POSITION_SIZE_MAX - POSITION_SIZE_MIN))
      in min (capital_disponible * pct) capital_disponible)"

subsection \<open>portfolio.py: the ledger\<close>

datatype py_error = KeyError | ZeroDivisionError

datatype status = OPEN | WON | LOST | STOPPED | LIQUIDATED | PARTIAL_1 | PARTIAL_2

text \<open>The resolution texts are f-strings; each constructor is one format with the values
  it prints. \<open>Unresolved\<close> stands for a position that has no \<^verbatim>\<open>resolution\<close> key yet.\<close>

datatype resolution =
    Unresolved
  | YesResolved real
  | NoResolved real
  | StopLossHit real real real
  | Tramo3 real
  | PartialSale status int real
  | AutoLiquidated real
  | Note string

text \<open>A candidate of the discovery feed (\<^verbatim>\<open>scan_opportunities\<close>); the keys that the
  ledger and the cycle read. The feed always sets \<^verbatim>\<open>city\<close>, \<^verbatim>\<open>question\<close> and
  \<^verbatim>\<open>slug\<close>; a token id may be \<^verbatim>\<open>None\<close>.\<close>

record opportunity =
  condition_id :: string
  city :: string
  question :: string
  yes_price :: real
  no_price :: real
  slug :: string
  yes_token_id :: "string option"

text \<open>An open position: \<^verbatim>\<open>{**opp, "entry_yes": ..., ...}\<close>.\<close>

record position =
  opp :: opportunity
  entry_yes :: real
  current_yes :: real
  allocated :: real
  tokens :: real
  max_gain :: real
  exit_stage :: nat
  status :: status
  pnl :: real
  resolution :: resolution

text \<open>The dictionary appended to the history by a partial exit.\<close>

record partial_record =
  pr_question :: string
  pr_city :: string
  pr_condition_id :: string
  pr_entry_yes :: real
  pr_allocated :: real
  pr_pnl :: real
  pr_status :: status
  pr_resolution :: resolution

text \<open>An entry of \<^verbatim>\<open>closed_positions\<close>: the copy of a closed position, or the record of
  a partial exit.\<close>

datatype closed = FullClose position | PartialExit partial_record

fun closed_pnl :: "closed \<Rightarrow> real" where
  "closed_pnl (FullClose pos) = pnl pos"
| "closed_pnl (PartialExit r) = pr_pnl r"

fun closed_status :: "closed \<Rightarrow> status" where
  "closed_status (FullClose pos) = status pos"
| "closed_status (PartialExit r) = pr_status r"

fun closed_condition_id :: "closed \<Rightarrow> string" where
  "closed_condition_id (FullClose pos) = condition_id (opp pos)"
| "closed_condition_id (PartialExit r) = pr_condition_id r"

record portfolio =
  capital_inicial :: real
  capital_total :: real
  capital_disponible :: real
  positions :: "(string \<times> position) list"
  closed_positions :: "closed list"

text \<open>\<^verbatim>\<open>round(x, ndigits)\<close> on an exact value: to the nearest multiple of
  \<open>10 ^ -ndigits\<close>, a tie to the even one.\<close>

definition py_round :: "real \<Rightarrow> nat \<Rightarrow> real" where
  "py_round x ndigits =
     (let y = x * 10 ^ ndigits; f = \<lfloor>y\<rfloor>; d = y - of_int f
      in of_int (if d < 1 / 2 then f else if 1 / 2 < d then f + 1
                 else if even f then f else f + 1) / 10 ^ ndigits)"

text \<open>\<^verbatim>\<open>int(x)\<close> truncates towards zero.\<close>

definition py_int :: "real \<Rightarrow> int" where
  "py_int x = (if 0 \<le> x then \<lfloor>x\<rfloor> else \<lceil>x\<rceil>)"

text \<open>\<^verbatim>\<open>AutoPortfolio(initial_capital)\<close>\<close>

definition AutoPortfolio :: "real \<Rightarrow> portfolio" where
  "AutoPortfolio initial_capital =
     \<lparr>capital_inicial = initial_capital, capital_total = initial_capital,
      capital_disponible = initial_capital, positions = [], closed_positions = []\<rparr>"

definition can_open_position :: "portfolio \<Rightarrow> bool" where
  "can_open_position s = (length (positions s) < MAX_POSITIONS \<and> 1 \<le> capital_disponible s)"

text \<open>\<^verbatim>\<open>open_position\<close>: the division raises before anything is changed.\<close>

definition open_position :: "portfolio \<Rightarrow> opportunity \<Rightarrow> real \<Rightarrow> py_error + portfolio" where
  "open_position s op amount =
     (if yes_price op = 0 then Inl ZeroDivisionError
      else let tokens = amount / yes_price op;
               max_gain = tokens * 1 - amount;
               pos = \<lparr>opp = op, entry_yes = yes_price op, current_yes = yes_price op,
                      allocated = amount, tokens = tokens, max_gain = max_gain,
                      exit_stage = 0, status = OPEN, pnl = 0, resolution = Unresolved\<rparr>
           in Inr (s\<lparr>positions := AList.update (condition_id op) pos (positions s),
                     capital_disponible := capital_disponible s - amount\<rparr>))"

text \<open>\<^verbatim>\<open>_close_position\<close>\<close>

definition close_position ::
  "portfolio \<Rightarrow> string \<Rightarrow> status \<Rightarrow> real \<Rightarrow> resolution \<Rightarrow> portfolio" where
  "close_position s cid st pl res =
     (case map_of (positions s) cid of
        None \<Rightarrow> s
      | Some pos0 \<Rightarrow>
          let pos = pos0\<lparr>status := st, pnl := pl, resolution := res\<rparr>;
              recovered = allocated pos + pl
          in s\<lparr>capital_disponible := capital_disponible s + recovered,
               capital_total := capital_total s + pl,
               closed_positions := closed_positions s @ [FullClose pos],
               positions := AList.delete cid (positions s)\<rparr>)"

text \<open>\<^verbatim>\<open>_partial_exit\<close>: \<^verbatim>\<open>self.positions[cid]\<close> raises \<^verbatim>\<open>KeyError\<close> for an id that is
  not open.\<close>

definition partial_exit ::
  "portfolio \<Rightarrow> string \<Rightarrow> real \<Rightarrow> nat \<Rightarrow> status \<Rightarrow> py_error + portfolio" where
  "partial_exit s cid fraction new_stage label =
     (case map_of (positions s) cid of
        None \<Rightarrow> Inl KeyError
      | Some pos \<Rightarrow>
          let tokens_sold = tokens pos * fraction;
              sale_value = tokens_sold * current_yes pos;
              cost_fraction = allocated pos * fraction;
              realized_pnl = sale_value - cost_fraction;
              pos' = pos\<lparr>tokens := tokens pos * (1 - fraction),
                         allocated := allocated pos * (1 - fraction),
                         max_gain := max_gain pos * (1 - fraction),
                         exit_stage := new_stage\<rparr>
          in Inr (s\<lparr>positions := AList.update cid pos' (positions s),
                    capital_disponible := capital_disponible s + (cost_fraction + realized_pnl),
                    capital_total := capital_total s + realized_pnl,
                    closed_positions := closed_positions s @
                      [PartialExit
                        \<lparr>pr_question = question (opp pos), pr_city = city (opp pos),
                         pr_condition_id = cid, pr_entry_yes = entry_yes pos,
                         pr_allocated = py_round cost_fraction 2,
                         pr_pnl = py_round realized_pnl 2,
                         pr_status = label,
                         pr_resolution =
                           PartialSale label (py_int (fraction * 100)) (current_yes pos)\<rparr>]\<rparr>))"

text \<open>\<^verbatim>\<open>apply_price_updates\<close>, first loop: set \<^verbatim>\<open>current_yes\<close> and collect the
  closings in \<^verbatim>\<open>to_close\<close>.\<close>

type_synonym pending = "string \<times> status \<times> real \<times> resolution"

fun collect_closings ::
  "portfolio \<Rightarrow> (string \<times> real \<times> real) list \<Rightarrow> pending list \<Rightarrow> portfolio \<times> pending list" where
  "collect_closings s [] to_close = (s, to_close)"
| "collect_closings s ((cid, yes, no) # price_map) to_close =
     (case map_of (positions s) cid of
        None \<Rightarrow> collect_closings s price_map to_close
      | Some pos0 \<Rightarrow>
          let pos = pos0\<lparr>current_yes := yes\<rparr>;
              s1 = s\<lparr>positions := AList.update cid pos (positions s)\<rparr>
          in if 99 / 100 \<le> yes then
               collect_closings s1 price_map
                 (to_close @ [(cid, WON, tokens pos * yes - allocated pos, YesResolved yes)])
             else if 99 / 100 \<le> no then
               collect_closings s1 price_map
                 (to_close @ [(cid, LOST, - allocated pos, NoResolved no)])
             else
               let drop = py_sub yes (entry_yes pos)
               in if drop \<le> - py_float STOP_LOSS_DROP then
                    collect_closings s1 price_map
                      (to_close @ [(cid, STOPPED, tokens pos * yes - allocated pos,
                                    StopLossHit yes (entry_yes pos) (- drop))])
                  else collect_closings s1 price_map to_close)"

text \<open>Second loop: \<^verbatim>\<open>for cid, status, pnl, resolution in to_close\<close>.\<close>

fun close_all :: "portfolio \<Rightarrow> pending list \<Rightarrow> portfolio" where
  "close_all s [] = s"
| "close_all s ((cid, st, pl, res) # to_close) = close_all (close_position s cid st pl res) to_close"

definition apply_price_updates :: "portfolio \<Rightarrow> (string \<times> real \<times> real) list \<Rightarrow> portfolio" where
  "apply_price_updates s price_map =
     (case collect_closings s price_map [] of (s1, to_close) \<Rightarrow> close_all s1 to_close)"

text \<open>\<^verbatim>\<open>check_progressive_exits\<close>: the loop over the snapshot
  \<^verbatim>\<open>list(self.positions.items())\<close>.\<close>

fun exits_loop :: "portfolio \<Rightarrow> (string \<times> position) list \<Rightarrow> py_error + portfolio" where
  "exits_loop s [] = Inr s"
| "exits_loop s ((cid, pos) # items) =
     (let stage = exit_stage pos; cur = current_yes pos
      in if stage = 0 \<and> EXIT_1_THRESHOLD \<le> cur then
           (case partial_exit s cid (1 / 2) 1 PARTIAL_1 of
              Inl e \<Rightarrow> Inl e
            | Inr s' \<Rightarrow> exits_loop s' items)
         else if stage = 1 \<and> EXIT_2_THRESHOLD \<le> cur then
           (case partial_exit s cid (1 / 2) 2 PARTIAL_2 of
              Inl e \<Rightarrow> Inl e
            | Inr s' \<Rightarrow> exits_loop s' items)
         else if stage = 2 \<and> EXIT_3_THRESHOLD \<le> cur then
           exits_loop (close_position s cid WON (tokens pos * cur - allocated pos) (Tramo3 cur))
             items
         else exits_loop s items)"

definition check_progressive_exits :: "portfolio \<Rightarrow> py_error + portfolio" where
  "check_progressive_exits s = exits_loop s (positions s)"

definition get_region_allocated :: "portfolio \<Rightarrow> string \<Rightarrow> real" where
  "get_region_allocated s region =
     sum_list (map (\<lambda>(cid, pos). allocated pos)
       (filter (\<lambda>(cid, pos). region_of (city (opp pos)) = region) (positions s)))"

definition region_has_capacity :: "portfolio \<Rightarrow> string \<Rightarrow> bool" where
  "region_has_capacity s c =
     (get_region_allocated s (region_of c) < capital_total s * MAX_REGION_EXPOSURE)"

subsection \<open>bot.py: the quote sources\<close>

text \<open>The two HTTP clients are parameters of the model.
  \<^verbatim>\<open>fetch_yes_price_clob\<close> returns \<^verbatim>\<open>(None, None)\<close> (here \<open>None\<close>) or a pair of
  prices; \<^verbatim>\<open>fetch_live_prices\<close> returns a pair whose components may each be \<^verbatim>\<open>None\<close>.\<close>

type_synonym clob_source = "string \<Rightarrow> (real \<times> real) option"
type_synonym gamma_source = "string \<Rightarrow> real option \<times> real option"

text \<open>Truth value of \<^verbatim>\<open>yes_tid\<close> in \<^verbatim>\<open>if clob_ok and yes_tid\<close>.\<close>

fun truthy :: "string option \<Rightarrow> bool" where
  "truthy None = False"
| "truthy (Some t) = (t \<noteq> [])"

text \<open>The network calls a sweep makes are recorded, position by position.\<close>

datatype source_call = CallClob string | CallGamma string

subsection \<open>bot.py: the entry gate of the scan cycle\<close>

definition MAX_CLOB_VERIFY :: nat where "MAX_CLOB_VERIFY = 20"

record scan_state =
  trend :: tracker
  clob_fails :: nat
  clob_ok :: bool
  clob_verified :: "opportunity list"

text \<open>The quote of one candidate: the call, the sanity check \<^verbatim>\<open>rt_yes > 0.50\<close> and the
  failure count. The result is \<^verbatim>\<open>(rt_yes, rt_no)\<close> (\<open>None\<close> when \<^verbatim>\<open>rt_yes is None\<close>) with the
  new \<^verbatim>\<open>clob_fails\<close> and \<^verbatim>\<open>clob_ok\<close>.\<close>

definition scan_quote ::
  "clob_source \<Rightarrow> scan_state \<Rightarrow> opportunity \<Rightarrow> (real \<times> real) option \<times> nat \<times> bool" where
  "scan_quote clob st op =
     (if clob_ok st \<and> truthy (yes_token_id op) then
        (case (case clob (the (yes_token_id op)) of
                 None \<Rightarrow> None
               | Some (rt_yes, rt_no) \<Rightarrow> if 1 / 2 < rt_yes then None else Some (rt_yes, rt_no)) of
           None \<Rightarrow> (None, clob_fails st + 1, if 2 \<le> clob_fails st + 1 then False else clob_ok st)
         | Some q \<Rightarrow> (Some q, clob_fails st, clob_ok st))
      else (None, clob_fails st, clob_ok st))"

text \<open>One iteration of \<^verbatim>\<open>for opp in candidates[:MAX_CLOB_VERIFY]\<close>; \<open>ts\<close> is the clock
  reading of \<^verbatim>\<open>tracker.record\<close>. The dashboard list \<^verbatim>\<open>display_opps\<close> is not modelled.\<close>

definition scan_step :: "clob_source \<Rightarrow> scan_state \<Rightarrow> real \<times> opportunity \<Rightarrow> scan_state" where
  "scan_step clob st c =
     (case c of (ts, op0) \<Rightarrow>
       (case scan_quote clob st op0 of
          (None, fails, ok) \<Rightarrow> st\<lparr>clob_fails := fails, clob_ok := ok\<rparr>
        | (Some (rt_yes, rt_no), fails, ok) \<Rightarrow>
            let tr = tracker_record (trend st) ts (condition_id op0) rt_yes;
                op = op0\<lparr>yes_price := rt_yes,
                         no_price := (if rt_no = 0 then py_round (1 - rt_yes) 4 else rt_no)\<rparr>;
                obs_count = observation_count tr (condition_id op);
                has_trend = has_uptrend tr (condition_id op);
                stable_in_range = (TREND_MIN_OBSERVATIONS \<le> obs_count);
                st1 = st\<lparr>trend := tr, clob_fails := fails, clob_ok := ok\<rparr>
            in if ENTRY_YES_MIN \<le> rt_yes \<and> rt_yes \<le> ENTRY_YES_MAX
                  \<and> (has_trend \<or> stable_in_range)
               then st1\<lparr>clob_verified := clob_verified st1 @ [op]\<rparr>
               else st1))"

text \<open>The whole loop, from \<^verbatim>\<open>clob_fails = 0\<close>, \<^verbatim>\<open>clob_ok = True\<close> and an empty
  \<^verbatim>\<open>clob_verified\<close>. A stop signal ends the loop early; the cycle then returns before it
  touches the ledger.\<close>

definition scan_candidates ::
  "clob_source \<Rightarrow> tracker \<Rightarrow> (real \<times> opportunity) list \<Rightarrow> scan_state" where
  "scan_candidates clob tr candidates =
     foldl (scan_step clob)
       \<lparr>trend = tr, clob_fails = 0, clob_ok = True, clob_verified = []\<rparr>
       (take MAX_CLOB_VERIFY candidates)"

subsection \<open>bot.py: opening the confirmed entries\<close>

text \<open>\<^verbatim>\<open>for opp in clob_verified\<close> of step 5: \<^verbatim>\<open>break\<close> when no position can be opened,
  \<^verbatim>\<open>continue\<close> when the region is full.\<close>

fun open_verified :: "portfolio \<Rightarrow> opportunity list \<Rightarrow> py_error + portfolio" where
  "open_verified s [] = Inr s"
| "open_verified s (op # rest) =
     (if \<not> can_open_position s then Inr s
      else if \<not> region_has_capacity s (city op) then open_verified s rest
      else let amount = calc_position_size (capital_disponible s) (yes_price op)
           in if 1 \<le> amount then
                (case open_position s op amount of
                   Inl e \<Rightarrow> Inl e
                 | Inr s' \<Rightarrow> open_verified s' rest)
              else open_verified s rest)"

subsection \<open>bot.py: the price sweeps over the open positions\<close>

text \<open>\<^verbatim>\<open>pos_data\<close>: \<^verbatim>\<open>(cid, pos.get("yes_token_id"), pos.get("slug"))\<close> for every open
  position.\<close>

type_synonym pos_datum = "string \<times> string option \<times> string"

definition pos_data_of :: "portfolio \<Rightarrow> pos_datum list" where
  "pos_data_of s = map (\<lambda>(cid, pos). (cid, yes_token_id (opp pos), slug (opp pos))) (positions s)"

text \<open>The state of the arbiter during one sweep: the local variables \<^verbatim>\<open>clob_ok\<close> and
  \<^verbatim>\<open>clob_failures\<close>.\<close>

record arbiter =
  primary_ok :: bool
  primary_failures :: nat

definition fresh_arbiter :: arbiter where
  "fresh_arbiter = \<lparr>primary_ok = True, primary_failures = 0\<rparr>"

text \<open>The quote of one position in \<^verbatim>\<open>_refresh_prices\<close>: a usable primary quote sets the
  failure count back to 0. The result is \<^verbatim>\<open>yes_p\<close>, the calls made and the new arbiter
  state.\<close>

definition refresh_quote ::
  "clob_source \<Rightarrow> gamma_source \<Rightarrow> arbiter \<Rightarrow> pos_datum \<Rightarrow> real option \<times> source_call list \<times> arbiter"
  where
  "refresh_quote clob gamma a d =
     (case d of (cid, yes_tid, slg) \<Rightarrow>
       (let (yes_p, calls, a1) =
              (if primary_ok a \<and> truthy yes_tid then
                 (let (yes_p, failures) =
                        (case clob (the yes_tid) of
                           Some (y, n) \<Rightarrow>
                             if 1 / 2 < y then (None, primary_failures a + 1) else (Some y, 0)
                         | None \<Rightarrow> (None, primary_failures a + 1))
                  in (yes_p, [CallClob (the yes_tid)],
                      \<lparr>primary_ok = (if 2 \<le> failures then False else primary_ok a),
                       primary_failures = failures\<rparr>))
               else (None, [], a))
        in (case yes_p of
              None \<Rightarrow> (fst (gamma slg), calls @ [CallGamma slg], a1)
            | Some y \<Rightarrow> (Some y, calls, a1))))"

text \<open>The loop of \<^verbatim>\<open>_refresh_prices\<close>: the ledger with the new \<^verbatim>\<open>current_yes\<close> values
  and the calls made for each position. The sweep is modelled without interleaving of the
  other worker; a stop signal ends it after a prefix of \<^verbatim>\<open>pos_data\<close>.\<close>

fun refresh_loop ::
  "clob_source \<Rightarrow> gamma_source \<Rightarrow> arbiter \<Rightarrow> portfolio \<Rightarrow> pos_datum list
     \<Rightarrow> portfolio \<times> (string \<times> source_call list) list" where
  "refresh_loop clob gamma a s [] = (s, [])"
| "refresh_loop clob gamma a s (d # ds) =
     (case refresh_quote clob gamma a d of (yes_p, calls, a1) \<Rightarrow>
        let s1 = (case yes_p of
                    None \<Rightarrow> s
                  | Some y \<Rightarrow>
                      (case map_of (positions s) (fst d) of
                         None \<Rightarrow> s
                       | Some pos \<Rightarrow>
                           s\<lparr>positions :=
                               AList.update (fst d) (pos\<lparr>current_yes := y\<rparr>) (positions s)\<rparr>))
        in (case refresh_loop clob gamma a1 s1 ds of
              (s2, trace) \<Rightarrow> (s2, (fst d, calls) # trace)))"

definition refresh_prices ::
  "clob_source \<Rightarrow> gamma_source \<Rightarrow> portfolio \<Rightarrow> portfolio \<times> (string \<times> source_call list) list"
  where
  "refresh_prices clob gamma s = refresh_loop clob gamma fresh_arbiter s (pos_data_of s)"

text \<open>The quote of one position in step 4 of \<^verbatim>\<open>_cycle\<close>: here the failure count is
  never set back.\<close>

definition cycle_quote ::
  "clob_source \<Rightarrow> gamma_source \<Rightarrow> arbiter \<Rightarrow> pos_datum
     \<Rightarrow> (real option \<times> real option) \<times> source_call list \<times> arbiter" where
  "cycle_quote clob gamma a d =
     (case d of (cid, yes_tid, slg) \<Rightarrow>
       (let (q, calls, a1) =
              (if primary_ok a \<and> truthy yes_tid then
                 (let q = (case clob (the yes_tid) of
                             Some (y, n) \<Rightarrow> if 1 / 2 < y then None else Some (y, n)
                           | None \<Rightarrow> None)
                  in (case q of
                        None \<Rightarrow>
                          (None, [CallClob (the yes_tid)],
                           \<lparr>primary_ok =
                              (if 2 \<le> primary_failures a + 1 then False else primary_ok a),
                            primary_failures = primary_failures a + 1\<rparr>)
                      | Some (y, n) \<Rightarrow> (Some (y, n), [CallClob (the yes_tid)], a)))
               else (None, [], a))
        in (case q of
              None \<Rightarrow> (gamma slg, calls @ [CallGamma slg], a1)
            | Some (y, n) \<Rightarrow> ((Some y, Some n), calls, a1))))"

text \<open>The loop of step 4: the \<^verbatim>\<open>price_map\<close> and the calls made for each position.
  A stop signal makes the cycle return from inside this loop.\<close>

fun cycle_price_loop ::
  "clob_source \<Rightarrow> gamma_source \<Rightarrow> arbiter \<Rightarrow> (string \<times> real \<times> real) list \<Rightarrow> pos_datum list
     \<Rightarrow> (string \<times> real \<times> real) list \<times> (string \<times> source_call list) list" where
  "cycle_price_loop clob gamma a price_map [] = (price_map, [])"
| "cycle_price_loop clob gamma a price_map (d # ds) =
     (case cycle_quote clob gamma a d of (q, calls, a1) \<Rightarrow>
        let price_map1 = (case q of
                            (Some yes_p, Some no_p) \<Rightarrow> AList.update (fst d) (yes_p, no_p) price_map
                          | _ \<Rightarrow> price_map)
        in (case cycle_price_loop clob gamma a1 price_map1 ds of
              (pm, trace) \<Rightarrow> (pm, (fst d, calls) # trace)))"

definition cycle_prices ::
  "clob_source \<Rightarrow> gamma_source \<Rightarrow> portfolio
     \<Rightarrow> (string \<times> real \<times> real) list \<times> (string \<times> source_call list) list" where
  "cycle_prices clob gamma s = cycle_price_loop clob gamma fresh_arbiter [] (pos_data_of s)"

subsection \<open>Notions used in the statements\<close>

text \<open>The fraction of the available capital that the sizing rule stakes at a price,
  with the default constants of \<^verbatim>\<open>config.py\<close> put in.\<close>

definition size_pct :: "real \<Rightarrow> real" where
  "size_pct p = 5 / 100 + max 0 (min 1 ((p - 22 / 100) / (5 / 100))) * (5 / 100)"

text \<open>What the first loop of \<open>apply_price_updates\<close> appends to \<^verbatim>\<open>to_close\<close> for an
  open position on a price pair: nothing, or one closing.\<close>

definition closing_of :: "string \<Rightarrow> position \<Rightarrow> real \<Rightarrow> real \<Rightarrow> pending list" where
  "closing_of cid pos yes no =
     (if 99 / 100 \<le> yes then
        [(cid, WON, tokens pos * yes - allocated pos, YesResolved yes)]
      else if 99 / 100 \<le> no then [(cid, LOST, - allocated pos, NoResolved no)]
      else if py_sub yes (entry_yes pos) \<le> - py_float STOP_LOSS_DROP then
        [(cid, STOPPED, tokens pos * yes - allocated pos,
          StopLossHit yes (entry_yes pos) (- py_sub yes (entry_yes pos)))]
      else [])"

text \<open>The progressive exits, position by position: \<open>due\<close> says that the price of a
  position meets the threshold of its stage, \<open>two_ahead\<close> that it also meets the one after;
  \<open>advance\<close> is what one call of \<open>check_progressive_exits\<close> leaves of a position
  (\<open>None\<close>: closed).\<close>

definition due :: "position \<Rightarrow> bool" where
  "due pos =
     (exit_stage pos = 0 \<and> EXIT_1_THRESHOLD \<le> current_yes pos
      \<or> exit_stage pos = 1 \<and> EXIT_2_THRESHOLD \<le> current_yes pos
      \<or> exit_stage pos = 2 \<and> EXIT_3_THRESHOLD \<le> current_yes pos)"

definition two_ahead :: "position \<Rightarrow> bool" where
  "two_ahead pos =
     (exit_stage pos = 0 \<and> EXIT_2_THRESHOLD \<le> current_yes pos
      \<or> exit_stage pos = 1 \<and> EXIT_3_THRESHOLD \<le> current_yes pos)"

definition halve :: "position \<Rightarrow> nat \<Rightarrow> position" where
  "halve pos new_stage =
     pos\<lparr>tokens := tokens pos * (1 - 1 / 2), allocated := allocated pos * (1 - 1 / 2),
         max_gain := max_gain pos * (1 - 1 / 2), exit_stage := new_stage\<rparr>"

definition advance :: "position \<Rightarrow> position option" where
  "advance pos =
     (if exit_stage pos = 0 \<and> EXIT_1_THRESHOLD \<le> current_yes pos then Some (halve pos 1)
      else if exit_stage pos = 1 \<and> EXIT_2_THRESHOLD \<le> current_yes pos then Some (halve pos 2)
      else if exit_stage pos = 2 \<and> EXIT_3_THRESHOLD \<le> current_yes pos then None
      else Some pos)"

text \<open>Two calls of \<open>check_progressive_exits\<close> in a row, and the stage and allocated
  capital of every open position of a result.\<close>

definition exits_twice :: "portfolio \<Rightarrow> py_error + portfolio" where
  "exits_twice s =
     (case check_progressive_exits s of Inl e \<Rightarrow> Inl e | Inr s1 \<Rightarrow> check_progressive_exits s1)"

definition stage_alloc :: "py_error + portfolio \<Rightarrow> (string \<times> nat \<times> real) list" where
  "stage_alloc r =
     (case r of
        Inl e \<Rightarrow> []
      | Inr s \<Rightarrow> map (\<lambda>(cid, pos). (cid, exit_stage pos, allocated pos)) (positions s))"

text \<open>Sequences of ledger calls: the three operations \<open>open_position\<close>,
  \<open>partial_exit\<close> and \<open>close_position\<close>, and the two methods through which the bot
  reaches the last two after prices have moved, \<open>apply_price_updates\<close> (which sets
  \<^verbatim>\<open>current_yes\<close> and calls \<open>close_position\<close>) and \<open>check_progressive_exits\<close> (which
  calls \<open>partial_exit\<close> and \<open>close_position\<close>). A call that raises leaves the ledger as
  it was: \<open>open_position\<close> and \<open>partial_exit\<close> raise before they change anything, and
  \<open>check_progressive_exits\<close> does not raise on a dictionary.\<close>

datatype ledger_op =
    OpOpen opportunity real
  | OpPartial string real nat status
  | OpClose string status real resolution
  | OpPrices "(string \<times> real \<times> real) list"
  | OpExits

fun apply_op :: "portfolio \<Rightarrow> ledger_op \<Rightarrow> py_error + portfolio" where
  "apply_op s (OpOpen op amount) = open_position s op amount"
| "apply_op s (OpPartial cid fraction new_stage label) = partial_exit s cid fraction new_stage label"
| "apply_op s (OpClose cid st pl res) = Inr (close_position s cid st pl res)"
| "apply_op s (OpPrices price_map) = Inr (apply_price_updates s price_map)"
| "apply_op s OpExits = check_progressive_exits s"

definition exec_op :: "portfolio \<Rightarrow> ledger_op \<Rightarrow> portfolio" where
  "exec_op s c = (case apply_op s c of Inl e \<Rightarrow> s | Inr s' \<Rightarrow> s')"

definition run_ops :: "portfolio \<Rightarrow> ledger_op list \<Rightarrow> portfolio" where
  "run_ops s cs = foldl exec_op s cs"

text \<open>Every \<open>open_position\<close> of the sequence is for a market id that is not open at that
  moment (the scan cycle passes the open and closed ids to the discovery feed, which leaves
  them out).\<close>

fun fresh_opens :: "portfolio \<Rightarrow> ledger_op list \<Rightarrow> bool" where
  "fresh_opens s [] = True"
| "fresh_opens s (c # cs) =
     ((case c of
         OpOpen op amount \<Rightarrow> condition_id op \<notin> fst ` set (positions s)
       | _ \<Rightarrow> True)
      \<and> fresh_opens (exec_op s c) cs)"

text \<open>The two sums of the conservation equations, the equations themselves, and the
  number of partial-exit records in the history (each stores its pnl rounded to two
  decimals).\<close>

definition allocated_sum :: "portfolio \<Rightarrow> real" where
  "allocated_sum s = sum_list (map (\<lambda>(cid, pos). allocated pos) (positions s))"

definition realized_sum :: "portfolio \<Rightarrow> real" where
  "realized_sum s = sum_list (map closed_pnl (closed_positions s))"

definition conserved :: "portfolio \<Rightarrow> bool" where
  "conserved s =
     (capital_disponible s + allocated_sum s = capital_total s
      \<and> capital_total s = capital_inicial s + realized_sum s)"

fun is_partial :: "closed \<Rightarrow> bool" where
  "is_partial (PartialExit r) = True"
| "is_partial (FullClose pos) = False"

definition partial_count :: "portfolio \<Rightarrow> nat" where
  "partial_count s = length (filter is_partial (closed_positions s))"

definition ledger_inv :: "portfolio \<Rightarrow> bool" where
  "ledger_inv s =
     (distinct (map fst (positions s))
      \<and> capital_disponible s + allocated_sum s = capital_total s
      \<and> \<bar>capital_total s - (capital_inicial s + realized_sum s)\<bar> \<le> real (partial_count s) / 200)"

text \<open>A failure of the primary source for a token: no quote, or a yes price above 0.50.\<close>

definition primary_fails :: "clob_source \<Rightarrow> string \<Rightarrow> bool" where
  "primary_fails clob tid = (case clob tid of None \<Rightarrow> True | Some (y, n) \<Rightarrow> 1 / 2 < y)"

text \<open>The sweep as the specification describes it. \<open>tokened\<close> are the token ids of the
  positions that have one, in the order of the sweep; \<open>two_in_a_row\<close> says that two
  neighbours of a list satisfy a predicate. A position is quoted from the primary source
  first (and from the fallback when the primary fails) unless the sweep is demoted or the
  position has no token id; then it is quoted from the fallback only.
  \<open>sweep_by_consecutive\<close> is the trace of a sweep that is demoted, at a position, when two
  positions in a row before it failed on the primary source; \<open>sweep_by_total\<close> is the
  trace of a sweep that is demoted when any two positions before it failed.\<close>

definition tokened :: "pos_datum list \<Rightarrow> string list" where
  "tokened ds =
     map (\<lambda>(cid, yes_tid, slg). the yes_tid) (filter (\<lambda>(cid, yes_tid, slg). truthy yes_tid) ds)"

fun two_in_a_row :: "('a \<Rightarrow> bool) \<Rightarrow> 'a list \<Rightarrow> bool" where
  "two_in_a_row P (x # y # xs) = (P x \<and> P y \<or> two_in_a_row P (y # xs))"
| "two_in_a_row P xs = False"

definition quote_calls :: "clob_source \<Rightarrow> bool \<Rightarrow> pos_datum \<Rightarrow> source_call list" where
  "quote_calls clob demoted d =
     (case d of (cid, yes_tid, slg) \<Rightarrow>
        if \<not> demoted \<and> truthy yes_tid then
          (if primary_fails clob (the yes_tid) then [CallClob (the yes_tid), CallGamma slg]
           else [CallClob (the yes_tid)])
        else [CallGamma slg])"

definition sweep_by_consecutive ::
  "clob_source \<Rightarrow> pos_datum list \<Rightarrow> (string \<times> source_call list) list" where
  "sweep_by_consecutive clob ds =
     map (\<lambda>i. (fst (ds ! i),
               quote_calls clob (two_in_a_row (primary_fails clob) (tokened (take i ds))) (ds ! i)))
       [0..<length ds]"

definition sweep_by_total ::
  "clob_source \<Rightarrow> pos_datum list \<Rightarrow> (string \<times> source_call list) list" where
  "sweep_by_total clob ds =
     map (\<lambda>i. (fst (ds ! i),
               quote_calls clob (2 \<le> length (filter (primary_fails clob) (tokened (take i ds))))
                 (ds ! i)))
       [0..<length ds]"

subsection \<open>Concrete inputs\<close>

text \<open>A candidate as the discovery feed builds it, and the ledger after
  \<^verbatim>\<open>open_position\<close> of 10 units at 0.25 on a fresh ledger of 100.\<close>

definition candidate :: "string \<Rightarrow> string \<Rightarrow> real \<Rightarrow> opportunity" where
  "candidate cid c p =
     \<lparr>condition_id = cid, city = c, question = ''Highest temperature?'', yes_price = p,
      no_price = 1 - p, slug = cid, yes_token_id = Some cid\<rparr>"

definition held :: "string \<Rightarrow> string \<Rightarrow> real \<Rightarrow> real \<Rightarrow> real \<Rightarrow> nat \<Rightarrow> position" where
  "held cid c entry cur amount stage =
     \<lparr>opp = candidate cid c entry, entry_yes = entry, current_yes = cur,
      allocated = amount, tokens = amount / entry, max_gain = amount / entry - amount,
      exit_stage = stage, status = OPEN, pnl = 0, resolution = Unresolved\<rparr>"

definition one_open :: portfolio where
  "one_open =
     \<lparr>capital_inicial = 100, capital_total = 100, capital_disponible = 90,
      positions = [(''m1'', held ''m1'' ''miami'' (25 / 100) (25 / 100) 10 0)],
      closed_positions = []\<rparr>"

text \<open>The same ledger after a price update of its position to \<open>cur\<close>.\<close>

definition one_open_at :: "real \<Rightarrow> portfolio" where
  "one_open_at cur =
     \<lparr>capital_inicial = 100, capital_total = 100, capital_disponible = 90,
      positions = [(''m1'', held ''m1'' ''miami'' (25 / 100) cur 10 0)],
      closed_positions = []\<rparr>"

text \<open>A market with three falling observations, and a primary source that quotes 0.25
  for every token.\<close>

definition falling_history :: tracker where
  "falling_history = [''m1'' \<mapsto> [(1, 40 / 100), (2, 35 / 100), (3, 30 / 100)]]"

definition quote_25 :: clob_source where
  "quote_25 t = Some (25 / 100, 75 / 100)"

text \<open>A ledger with four open positions, a primary source that gives no quote for the
  token \<open>a\<close>, a yes price of 0.60 for the token \<open>c\<close> and 0.25 / 0.75 for every other one,
  and a fallback source that quotes 0.30 / 0.70.\<close>

definition four_open :: portfolio where
  "four_open =
     \<lparr>capital_inicial = 100, capital_total = 100, capital_disponible = 60,
      positions = [(''a'', held ''a'' ''miami'' (25 / 100) (25 / 100) 10 0),
                   (''b'', held ''b'' ''london'' (25 / 100) (25 / 100) 10 0),
                   (''c'', held ''c'' ''seoul'' (25 / 100) (25 / 100) 10 0),
                   (''d'', held ''d'' ''tokyo'' (25 / 100) (25 / 100) 10 0)],
      closed_positions = []\<rparr>"

definition flaky :: clob_source where
  "flaky t =
     (if t = ''a'' then None
      else if t = ''c'' then Some (60 / 100, 40 / 100)
      else Some (25 / 100, 75 / 100))"

definition gamma_30 :: gamma_source where
  "gamma_30 slg = (Some (30 / 100), Some (70 / 100))"

section \<open>Properties\<close>

subsection \<open>Binary floating point\<close>

lemma two_powr_neg: "2 powr (- real n) = 1 / 2 ^ n"
  by (simp add: powr_minus_divide powr_realpow)

lemma two_powr_neg_Suc: "2 powr (1 - real n) = 2 / 2 ^ n"
proof -
  have "2 powr (1 + - real n) = 2 powr 1 * 2 powr (- real n)" by (rule powr_add)
  then show ?thesis by (simp add: two_powr_neg)
qed

lemma floor_log2_binade:
  assumes "1 / 2 ^ n \<le> x" and "x < 2 / 2 ^ n"
  shows "\<lfloor>log 2 x\<rfloor> = - int n"
proof -
  have pos: "0 < x"
  proof -
    have "(0::real) < 1 / 2 ^ n" by simp
    with assms(1) show ?thesis by linarith
  qed
  have "2 powr real_of_int (- int n) \<le> x \<and> x < 2 powr real_of_int (- int n + 1)"
    using assms by (simp add: two_powr_neg two_powr_neg_Suc)
  with floor_log_eq_powr_iff [of x 2 "- int n"] pos show ?thesis by simp
qed

lemma py_float_binade:
  assumes "1 / 2 ^ n \<le> \<bar>x\<bar>" and "\<bar>x\<bar> < 2 / 2 ^ n"
  shows "py_float x = of_int (round_half_even (x * 2 ^ (n + 52))) / 2 ^ (n + 52)"
proof -
  have nz: "x \<noteq> 0"
  proof -
    have "(0::real) < 1 / 2 ^ n" by simp
    with assms(1) have "0 < \<bar>x\<bar>" by linarith
    then show ?thesis by simp
  qed
  have e: "\<lfloor>log 2 \<bar>x\<bar>\<rfloor> = - int n" using assms by (rule floor_log2_binade)
  have u: "2 powr (real_of_int (- int n) - 52) = 1 / 2 ^ (n + 52)"
    using two_powr_neg [of "n + 52"] by (simp add: algebra_simps)
  show ?thesis
    by (simp add: py_float_def nz e u Let_def del: of_int_minus)
qed

lemma fl_005: "py_float (5 / 100) = 3602879701896397 / 2 ^ 56"
  by (subst py_float_binade [where n = 5]) (simp_all add: round_half_even_def)

lemma fl_020: "py_float (20 / 100) = 3602879701896397 / 2 ^ 54"
  by (subst py_float_binade [where n = 3]) (simp_all add: round_half_even_def)

lemma fl_025: "py_float (25 / 100) = 1 / 2 ^ 2"
  by (subst py_float_binade [where n = 2]) (simp_all add: round_half_even_def)

lemma fl_026: "py_float (26 / 100) = 1170935903116329 / 2 ^ 52"
  by (subst py_float_binade [where n = 2]) (simp_all add: round_half_even_def)

lemma fl_031: "py_float (31 / 100) = 5584463537939415 / 2 ^ 54"
  by (subst py_float_binade [where n = 2]) (simp_all add: round_half_even_def)

lemma fl_040: "py_float (40 / 100) = 3602879701896397 / 2 ^ 53"
  by (subst py_float_binade [where n = 2]) (simp_all add: round_half_even_def)

lemma fl_022: "py_float (22 / 100) = 7926335344172073 / 2 ^ 55"
  by (subst py_float_binade [where n = 3]) (simp_all add: round_half_even_def)

lemma fl_027: "py_float (27 / 100) = 607985949695017 / 2 ^ 51"
  by (subst py_float_binade [where n = 2]) (simp_all add: round_half_even_def)

lemma fl_019: "py_float (19 / 100) = 3422735716801577 / 2 ^ 54"
  by (subst py_float_binade [where n = 3]) (simp_all add: round_half_even_def)

lemma sub_020_025: "py_sub (20 / 100) (25 / 100) = - (900719925474099 / 2 ^ 54)"
  unfolding py_sub_def fl_020 fl_025
  by (subst py_float_binade [where n = 5]) (simp_all add: round_half_even_def)

lemma sub_025_020: "py_sub (25 / 100) (20 / 100) = 900719925474099 / 2 ^ 54"
  unfolding py_sub_def fl_025 fl_020
  by (subst py_float_binade [where n = 5]) (simp_all add: round_half_even_def)

lemma sub_026_020: "py_sub (26 / 100) (20 / 100) = 1080863910568919 / 2 ^ 54"
  unfolding py_sub_def fl_026 fl_020
  by (subst py_float_binade [where n = 5]) (simp_all add: round_half_even_def)

lemma sub_031_025: "py_sub (31 / 100) (25 / 100) = 1080863910568919 / 2 ^ 54"
  unfolding py_sub_def fl_031 fl_025
  by (subst py_float_binade [where n = 5]) (simp_all add: round_half_even_def)

lemma sub_040_025: "py_sub (40 / 100) (25 / 100) = 1351079888211149 / 2 ^ 53"
  unfolding py_sub_def fl_040 fl_025
  by (subst py_float_binade [where n = 3]) (simp_all add: round_half_even_def)

lemma sub_022_027: "py_sub (22 / 100) (27 / 100) = - (1801439850948199 / 2 ^ 55)"
  unfolding py_sub_def fl_022 fl_027
  by (subst py_float_binade [where n = 5]) (simp_all add: round_half_even_def)

lemma sub_019_025: "py_sub (19 / 100) (25 / 100) = - (1080863910568919 / 2 ^ 54)"
  unfolding py_sub_def fl_019 fl_025
  by (subst py_float_binade [where n = 5]) (simp_all add: round_half_even_def)

lemma sub_026_025: "py_sub (26 / 100) (25 / 100) = 45035996273705 / 2 ^ 52"
  unfolding py_sub_def fl_026 fl_025
  by (subst py_float_binade [where n = 7]) (simp_all add: round_half_even_def)



lemma fl_0311: "py_float (311 / 1000) = 5602477936448897 / 2 ^ 54"
  by (subst py_float_binade [where n = 2]) (simp_all add: round_half_even_def)

lemma sub_0311_025: "py_sub (311 / 1000) (25 / 100) = 1098878309078401 / 2 ^ 54"
  unfolding py_sub_def fl_0311 fl_025
  by (subst py_float_binade [where n = 5]) (simp_all add: round_half_even_def)

text \<open>The comparisons with 0.05 at the prices used below, in the form the simplifier
  gives the numerals.\<close>

lemma drop_020_025: "\<not> py_sub (1 / 5) (1 / 4) \<le> - py_float (1 / 20)"
  using sub_020_025 fl_005 by simp

lemma drop_022_027: "py_sub (11 / 50) (27 / 100) \<le> - py_float (1 / 20)"
  using sub_022_027 fl_005 by simp

lemma drop_031_025: "\<not> py_sub (31 / 100) (1 / 4) \<le> - py_float (1 / 20)"
  using sub_031_025 fl_005 by simp

lemma drop_040_025: "\<not> py_sub (2 / 5) (1 / 4) \<le> - py_float (1 / 20)"
  using sub_040_025 fl_005 by simp

lemma drop_0311_025: "\<not> py_sub (311 / 1000) (1 / 4) \<le> - py_float (1 / 20)"
  using sub_0311_025 fl_005 by simp

lemma rise_025_020: "\<not> py_float (1 / 20) \<le> py_sub (1 / 4) (1 / 5)"
  using sub_025_020 fl_005 by simp

lemma rise_026_020: "py_float (1 / 20) \<le> py_sub (13 / 50) (1 / 5)"
  using sub_026_020 fl_005 by simp

subsection \<open>Trend detection\<close>

lemma uptrend_loop_adjacent:
  "uptrend_loop i w = (\<forall>j. i \<le> j \<and> j < length w \<longrightarrow> w ! (j - 1) < w ! j)"
proof (induction i w rule: uptrend_loop.induct)
  case (1 i window)
  show ?case
  proof (cases "i < length window")
    case False
    then show ?thesis by (subst uptrend_loop.simps) auto
  next
    case True
    show ?thesis
    proof (cases "window ! i \<le> window ! (i - 1)")
      case True
      with \<open>i < length window\<close> show ?thesis
        by (subst uptrend_loop.simps) (auto intro: exI [of _ i])
    next
      case False
      have "uptrend_loop i window = uptrend_loop (i + 1) window"
        using False \<open>i < length window\<close> by (subst uptrend_loop.simps) simp
      also have "\<dots> = (\<forall>j. i + 1 \<le> j \<and> j < length window \<longrightarrow> window ! (j - 1) < window ! j)"
        using "1.IH" [OF \<open>i < length window\<close> False] .
      also have "\<dots> = (\<forall>j. i \<le> j \<and> j < length window \<longrightarrow> window ! (j - 1) < window ! j)"
      proof
        assume h: "\<forall>j. i + 1 \<le> j \<and> j < length window \<longrightarrow> window ! (j - 1) < window ! j"
        show "\<forall>j. i \<le> j \<and> j < length window \<longrightarrow> window ! (j - 1) < window ! j"
        proof (intro allI impI)
          fix j assume j: "i \<le> j \<and> j < length window"
          show "window ! (j - 1) < window ! j"
          proof (cases "j = i")
            case True
            with False show ?thesis by simp
          next
            case False
            with j h show ?thesis by simp
          qed
        qed
      next
        assume "\<forall>j. i \<le> j \<and> j < length window \<longrightarrow> window ! (j - 1) < window ! j"
        then show "\<forall>j. i + 1 \<le> j \<and> j < length window \<longrightarrow> window ! (j - 1) < window ! j"
          by simp
      qed
      finally show ?thesis .
    qed
  qed
qed

lemma uptrend_loop_four:
  "uptrend_loop 1 [a, b, c, d] = (a < b \<and> b < c \<and> c < d)"
proof -
  have "(\<forall>j. 1 \<le> j \<and> j < 4 \<longrightarrow> [a, b, c, d] ! (j - 1) < [a, b, c, d] ! j)
        = (a < b \<and> b < c \<and> c < d)" (is "?L = ?R")
  proof
    assume l: ?L
    from l [rule_format, of 1] l [rule_format, of 2] l [rule_format, of 3]
    show ?R by simp
  next
    assume r: ?R
    show ?L
    proof (intro allI impI)
      fix j :: nat assume "1 \<le> j \<and> j < 4"
      then have "j = 1 \<or> j = 2 \<or> j = 3" by arith
      with r show "[a, b, c, d] ! (j - 1) < [a, b, c, d] ! j" by auto
    qed
  qed
  then show ?thesis by (simp add: uptrend_loop_adjacent)
qed

lemma length_four:
  "length (ys :: 'a list) = 4 \<Longrightarrow> \<exists>a b c d. ys = [a, b, c, d]"
  by (cases ys; cases "tl ys"; cases "tl (tl ys)"; cases "tl (tl (tl ys))") auto

lemma last_four:
  assumes "4 \<le> length xs"
  shows "\<exists>a b c d. drop (length xs - 4) xs = [a, b, c, d]"
  using assms by (intro length_four) simp

lemma sorted_four: "sorted_wrt (<) [a, b, c, d :: real] = (a < b \<and> b < c \<and> c < d)"
  by auto

text \<open>What \<open>has_uptrend\<close> computes: false with fewer than 4 observations; otherwise
  true exactly when the last 4 recorded prices are strictly increasing pairwise and the
  float difference of the last and the first of them is at least the float 0.05.\<close>

lemma has_uptrend_char:
  "has_uptrend tr cid =
     (let hist = history_of tr cid;
          window = map snd (drop (length hist - 4) hist)
      in 4 \<le> length hist \<and> sorted_wrt (<) window
         \<and> py_float (5 / 100) \<le> py_sub (last window) (hd window))"
proof (cases "4 \<le> length (history_of tr cid)")
  case False
  then show ?thesis
    by (simp add: has_uptrend_def TREND_MIN_OBSERVATIONS_def Let_def)
next
  case True
  from last_four [OF True] obtain a b c d where
    w: "drop (length (history_of tr cid) - 4) (history_of tr cid) = [a, b, c, d]"
    by blast
  show ?thesis
    using True w
    by (simp add: has_uptrend_def TREND_MIN_OBSERVATIONS_def TREND_MIN_RISE_def Let_def
        py_last_n_def uptrend_loop_four)
qed

text \<open>The two examples of the specification come out as it says: a tie in the window
  gives false, and a rise of 0.06 over strictly increasing prices gives true.\<close>

lemma has_uptrend_examples:
  "has_uptrend
     (tracker_record (tracker_record (tracker_record (tracker_record Map.empty
        t1 c (20 / 100)) t2 c (21 / 100)) t3 c (21 / 100)) t4 c (25 / 100)) c = False
   \<and> has_uptrend
        (tracker_record (tracker_record (tracker_record (tracker_record Map.empty
           t1 c (20 / 100)) t2 c (22 / 100)) t3 c (24 / 100)) t4 c (26 / 100)) c = True"
  by (simp add: has_uptrend_def tracker_record_def history_of_def MAX_HISTORY_PER_MARKET_def
      TREND_MIN_OBSERVATIONS_def TREND_MIN_RISE_def py_last_n_def uptrend_loop_four Let_def
      rise_026_020)

text \<open>
  Claim C3. The claim reads: \<open>has_uptrend\<close> is false when the market has fewer than 4
  observations; otherwise it is true exactly when the last 4 recorded prices are strictly
  increasing pairwise and the last of them exceeds the first by at least 0.05. The code
  does not do this at a rise of exactly 0.05: after the four observations
  0.20, 0.21, 0.22, 0.25, which are strictly increasing and rise by 0.05,
  \<open>has_uptrend\<close> returns false, because the float difference \<^verbatim>\<open>0.25 - 0.20\<close> is
  0.04999999999999999 (the fraction \<open>900719925474099 / 2 ^ 54\<close>), which is below the
  float 0.05 (the fraction \<open>3602879701896397 / 2 ^ 56\<close>). The docstring of the function
  and the comment on \<^verbatim>\<open>TREND_MIN_RISE\<close> (a total rise of 5 cents) promise true.
\<close>

theorem has_uptrend_misses_exact_rise:
  "has_uptrend
     (tracker_record (tracker_record (tracker_record (tracker_record Map.empty
        0 ''m'' (20 / 100)) 1 ''m'' (21 / 100)) 2 ''m'' (22 / 100)) 3 ''m'' (25 / 100))
     ''m'' = False
   \<and> sorted_wrt (<) [20 / 100, 21 / 100, 22 / 100, 25 / 100 :: real]
   \<and> TREND_MIN_RISE \<le> 25 / 100 - 20 / 100
   \<and> py_sub (25 / 100) (20 / 100) = 900719925474099 / 2 ^ 54
   \<and> py_float TREND_MIN_RISE = 3602879701896397 / 2 ^ 56"
proof (intro conjI)
  show "has_uptrend
     (tracker_record (tracker_record (tracker_record (tracker_record Map.empty
        0 ''m'' (20 / 100)) 1 ''m'' (21 / 100)) 2 ''m'' (22 / 100)) 3 ''m'' (25 / 100))
     ''m'' = False"
    by (simp add: has_uptrend_def tracker_record_def history_of_def MAX_HISTORY_PER_MARKET_def
        TREND_MIN_OBSERVATIONS_def TREND_MIN_RISE_def py_last_n_def uptrend_loop_four Let_def
        rise_025_020)
  show "sorted_wrt (<) [20 / 100, 21 / 100, 22 / 100, 25 / 100 :: real]" by simp
  show "TREND_MIN_RISE \<le> 25 / 100 - 20 / 100" by (simp add: TREND_MIN_RISE_def)
  show "py_sub (25 / 100) (20 / 100) = 900719925474099 / 2 ^ 54" by (rule sub_025_020)
  show "py_float TREND_MIN_RISE = 3602879701896397 / 2 ^ 56"
    unfolding TREND_MIN_RISE_def by (rule fl_005)
qed

subsection \<open>Position sizing\<close>

lemma size_pct_range: "5 / 100 \<le> size_pct p \<and> size_pct p \<le> 10 / 100"
proof -
  define t where "t = max 0 (min 1 ((p - 22 / 100) / (5 / 100)))"
  have "0 \<le> t" "t \<le> 1" by (simp_all add: t_def)
  then have "5 / 100 \<le> 5 / 100 + t * (5 / 100) \<and> 5 / 100 + t * (5 / 100) \<le> 10 / 100"
    by simp
  then show ?thesis by (simp only: size_pct_def t_def)
qed

lemma size_pct_mono:
  assumes "p \<le> q"
  shows "size_pct p \<le> size_pct q"
proof -
  have "(p - 22 / 100) / (5 / 100) \<le> (q - 22 / 100) / (5 / 100)"
    using assms by (simp add: divide_right_mono)
  then have "max 0 (min 1 ((p - 22 / 100) / (5 / 100)))
             \<le> max 0 (min 1 ((q - 22 / 100) / (5 / 100)))"
    by (intro max.mono min.mono) simp_all
  then show ?thesis by (simp only: size_pct_def) simp
qed

lemma calc_position_size_eq:
  assumes "0 \<le> c"
  shows "calc_position_size c p = c * size_pct p"
proof -
  have "c * size_pct p \<le> c * 1"
    using size_pct_range [of p] assms by (intro mult_left_mono) auto
  then show ?thesis
    by (simp add: calc_position_size_def ENTRY_YES_MAX_def ENTRY_YES_MIN_def
        POSITION_SIZE_MIN_def POSITION_SIZE_MAX_def size_pct_def Let_def)
qed

text \<open>
  Claim C10. For a nonnegative available capital and any price, \<open>calc_position_size\<close>
  returns between 5% and 10% of the capital (so never more than the capital), it is
  nondecreasing in the price, and it is exactly 5% for prices up to 0.22 and exactly 10%
  for prices from 0.27.
\<close>

theorem calc_position_size_bounds:
  assumes "0 \<le> c"
  shows "5 / 100 * c \<le> calc_position_size c p
       \<and> calc_position_size c p \<le> 10 / 100 * c
       \<and> calc_position_size c p \<le> c
       \<and> (p \<le> q \<longrightarrow> calc_position_size c p \<le> calc_position_size c q)
       \<and> (p \<le> 22 / 100 \<longrightarrow> calc_position_size c p = 5 / 100 * c)
       \<and> (27 / 100 \<le> p \<longrightarrow> calc_position_size c p = 10 / 100 * c)"
proof (intro conjI impI)
  show "5 / 100 * c \<le> calc_position_size c p"
    using mult_left_mono [of "5 / 100" "size_pct p" c] size_pct_range [of p] assms
    by (simp add: calc_position_size_eq mult.commute)
  show le: "calc_position_size c p \<le> 10 / 100 * c"
    using mult_left_mono [of "size_pct p" "10 / 100" c] size_pct_range [of p] assms
    by (simp add: calc_position_size_eq mult.commute)
  show "calc_position_size c p \<le> c"
    using le assms by simp
  show "calc_position_size c p \<le> calc_position_size c q" if "p \<le> q"
    using mult_left_mono [OF size_pct_mono [OF that] assms] assms
    by (simp add: calc_position_size_eq)
  show "calc_position_size c p = 5 / 100 * c" if "p \<le> 22 / 100"
    using that assms by (simp add: calc_position_size_eq size_pct_def max_def min_def)
  show "calc_position_size c p = 10 / 100 * c" if "27 / 100 \<le> p"
    using that assms by (simp add: calc_position_size_eq size_pct_def max_def min_def)
qed

theorem calc_position_size_bounds_witness:
  "(0::real) \<le> 100 \<and> calc_position_size 100 (25 / 100) = 8
     \<and> calc_position_size 100 (25 / 100) \<le> calc_position_size 100 (26 / 100)
     \<and> calc_position_size 100 (20 / 100) = 5 \<and> calc_position_size 100 (30 / 100) = 10"
  using calc_position_size_bounds [of 100 "25 / 100" "26 / 100"]
    calc_position_size_bounds [of 100 "20 / 100" "20 / 100"]
    calc_position_size_bounds [of 100 "30 / 100" "30 / 100"]
  by (simp add: calc_position_size_def ENTRY_YES_MAX_def ENTRY_YES_MIN_def
        POSITION_SIZE_MIN_def POSITION_SIZE_MAX_def Let_def)


subsection \<open>Positions that are no longer open\<close>

lemma collect_closings_keys:
  "collect_closings s pm tc = (s1, tc1) \<Longrightarrow> map fst (positions s1) = map fst (positions s)"
proof (induction pm arbitrary: s tc)
  case Nil
  then show ?case by simp
next
  case (Cons e pm)
  obtain cid yes no where e: "e = (cid, yes, no)" by (cases e) auto
  show ?case
  proof (cases "map_of (positions s) cid")
    case None
    with Cons e show ?thesis by simp
  next
    case (Some pos0)
    then have "cid \<in> set (map fst (positions s))"
      by (metis map_of_eq_None_iff option.distinct(1) set_map)
    then have k: "map fst (AList.update cid p (positions s)) = map fst (positions s)" for p
      by (simp add: update_keys)
    from Cons.prems e Some show ?thesis
      by (auto simp: Let_def k split: if_splits dest!: Cons.IH)
  qed
qed

lemma collect_closings_skip:
  "collect_closings s pm tc
     = collect_closings s (filter (\<lambda>(cid, q). cid \<in> fst ` set (positions s)) pm) tc"
proof (induction pm arbitrary: s tc)
  case Nil
  then show ?case by simp
next
  case (Cons e pm)
  obtain cid yes no where e: "e = (cid, yes, no)" by (cases e) auto
  show ?case
  proof (cases "map_of (positions s) cid")
    case None
    then have "cid \<notin> fst ` set (positions s)" by (simp add: map_of_eq_None_iff)
    with None Cons.IH [of s tc] e show ?thesis by simp
  next
    case (Some pos0)
    then have in_keys: "cid \<in> fst ` set (positions s)"
      by (metis map_of_eq_None_iff option.distinct(1))
    have k: "fst ` set (AList.update cid p (positions s)) = fst ` set (positions s)" for p
      using in_keys by (auto simp: dom_update)
    show ?thesis
      using Some in_keys e
      by (simp add: Let_def k Cons.IH [of "s\<lparr>positions := AList.update cid (pos0\<lparr>current_yes := yes\<rparr>) (positions s)\<rparr>", simplified k, simplified])
  qed
qed

text \<open>
  Claim C8. Closing a market id that is not in the open set returns the ledger unchanged;
  \<open>apply_price_updates\<close> gives the same ledger as on the price map without the entries
  whose id is not open, so a map of such entries only changes nothing.
\<close>

theorem absent_position_noop:
  "(cid \<notin> fst ` set (positions s) \<longrightarrow> close_position s cid st pl res = s)
   \<and> apply_price_updates s price_map
       = apply_price_updates s (filter (\<lambda>(cid, q). cid \<in> fst ` set (positions s)) price_map)
   \<and> ((\<forall>(cid, q) \<in> set price_map. cid \<notin> fst ` set (positions s))
        \<longrightarrow> apply_price_updates s price_map = s)"
proof (intro conjI impI)
  assume "cid \<notin> fst ` set (positions s)"
  then have "map_of (positions s) cid = None" by (simp add: map_of_eq_None_iff)
  then show "close_position s cid st pl res = s" by (simp add: close_position_def)
next
  show skip: "apply_price_updates s price_map
       = apply_price_updates s (filter (\<lambda>(cid, q). cid \<in> fst ` set (positions s)) price_map)"
    unfolding apply_price_updates_def by (subst collect_closings_skip) simp
  assume "\<forall>(cid, q) \<in> set price_map. cid \<notin> fst ` set (positions s)"
  then have "filter (\<lambda>(cid, q). cid \<in> fst ` set (positions s)) price_map = []"
    by (auto simp: filter_empty_conv)
  with skip show "apply_price_updates s price_map = s"
    by (simp add: apply_price_updates_def)
qed

lemma one_open_reached:
  "open_position (AutoPortfolio 100) (candidate ''m1'' ''miami'' (25 / 100)) 10 = Inr one_open"
  by (simp add: open_position_def AutoPortfolio_def candidate_def one_open_def held_def)

theorem absent_position_noop_witness:
  "''zz'' \<notin> fst ` set (positions one_open)
   \<and> close_position one_open ''zz'' WON 5 Unresolved = one_open
   \<and> list_all (\<lambda>(cid, q). cid \<notin> fst ` set (positions one_open))
        [(''zz'', 99 / 100, 1 / 100 :: real)]
   \<and> apply_price_updates one_open [(''zz'', 99 / 100, 1 / 100)] = one_open"
proof -
  note t = absent_position_noop [of "''zz''" one_open WON 5 Unresolved "[(''zz'', 99 / 100, 1 / 100)]"]
  have a: "''zz'' \<notin> fst ` set (positions one_open)" by (simp add: one_open_def)
  have b: "\<forall>(cid, q) \<in> set [(''zz'', 99 / 100, 1 / 100 :: real)]. cid \<notin> fst ` set (positions one_open)"
    by (simp add: one_open_def)
  from t [THEN conjunct1] a have x: "close_position one_open ''zz'' WON 5 Unresolved = one_open"
    by (rule mp)
  from t [THEN conjunct2, THEN conjunct2] b
  have z: "apply_price_updates one_open [(''zz'', 99 / 100, 1 / 100)] = one_open"
    by (rule mp)
  from b have b': "list_all (\<lambda>(cid, q). cid \<notin> fst ` set (positions one_open))
        [(''zz'', 99 / 100, 1 / 100 :: real)]"
    by simp
  from a x b' z show ?thesis by (intro conjI)
qed

subsection \<open>Region exposure\<close>

lemma region_south:
  "region_of ''miami'' = ''south''" "region_of ''dallas'' = ''south''"
  "region_of ''houston'' = ''south''" "region_of ''atlanta'' = ''south''"
  by (simp_all add: region_of_def REGION_MAP_def)

lemma size_at_max: "0 \<le> c \<Longrightarrow> calc_position_size c (27 / 100) = c / 10"
  by (simp add: calc_position_size_eq size_pct_def)

lemma open_verified_example:
  "(case open_verified (AutoPortfolio 100)
           [candidate ''a'' ''miami'' (27 / 100), candidate ''b'' ''dallas'' (27 / 100),
            candidate ''c'' ''houston'' (27 / 100), candidate ''d'' ''atlanta'' (27 / 100)] of
      Inl e \<Rightarrow> False
    | Inr s' \<Rightarrow> map fst (positions s') = [''a'', ''b'', ''c'']
               \<and> get_region_allocated s' ''south'' = 271 / 10
               \<and> capital_total s' = 100)"
  by (simp add: AutoPortfolio_def candidate_def can_open_position_def MAX_POSITIONS_def
      region_has_capacity_def get_region_allocated_def region_south MAX_REGION_EXPOSURE_def
      size_at_max open_position_def Let_def)

lemma open_position_changes:
  "open_position s op amount = Inr s' \<Longrightarrow> capital_disponible s' = capital_disponible s - amount"
  by (auto simp: open_position_def Let_def split: if_splits)

text \<open>
  Claim C7. \<open>region_has_capacity\<close> holds exactly when the allocated capital of the open
  positions of the city's region is strictly below a quarter of \<open>capital_total\<close>. With
  \<open>capital_total = 100\<close> the check fails exactly from 25 on, and a candidate that could
  otherwise be opened is left out by the cycle exactly then. The amount of the candidate is
  not part of the check: on a fresh ledger of 100 three candidates of one region are
  admitted (10, 9 and 8.1, together 27.1, above the cap of 25) and the fourth is refused.
\<close>

theorem region_cap_admission:
  "region_has_capacity s c = (get_region_allocated s (region_of c) < capital_total s * (25 / 100))
   \<and> (capital_total s = 100 \<longrightarrow>
        (\<not> region_has_capacity s c) = (25 \<le> get_region_allocated s (region_of c)))
   \<and> (capital_total s = 100 \<and> can_open_position s \<and> yes_price op \<noteq> 0
        \<and> 1 \<le> calc_position_size (capital_disponible s) (yes_price op) \<longrightarrow>
        (open_verified s [op] = Inr s) = (25 \<le> get_region_allocated s (region_of (city op))))
   \<and> (case open_verified (AutoPortfolio 100)
           [candidate ''a'' ''miami'' (27 / 100), candidate ''b'' ''dallas'' (27 / 100),
            candidate ''c'' ''houston'' (27 / 100), candidate ''d'' ''atlanta'' (27 / 100)] of
         Inl e \<Rightarrow> False
       | Inr s' \<Rightarrow> map fst (positions s') = [''a'', ''b'', ''c'']
                  \<and> get_region_allocated s' ''south'' = 271 / 10
                  \<and> capital_total s' = 100)"
proof (intro conjI impI)
  show "region_has_capacity s c
        = (get_region_allocated s (region_of c) < capital_total s * (25 / 100))"
    by (simp add: region_has_capacity_def MAX_REGION_EXPOSURE_def)
next
  assume "capital_total s = 100"
  then show "(\<not> region_has_capacity s c) = (25 \<le> get_region_allocated s (region_of c))"
    by (auto simp: region_has_capacity_def MAX_REGION_EXPOSURE_def)
next
  assume h: "capital_total s = 100 \<and> can_open_position s \<and> yes_price op \<noteq> 0
        \<and> 1 \<le> calc_position_size (capital_disponible s) (yes_price op)"
  show "(open_verified s [op] = Inr s) = (25 \<le> get_region_allocated s (region_of (city op)))"
  proof (cases "region_has_capacity s (city op)")
    case False
    with h show ?thesis
      by (auto simp: region_has_capacity_def MAX_REGION_EXPOSURE_def)
  next
    case True
    let ?amount = "calc_position_size (capital_disponible s) (yes_price op)"
    obtain s' where s': "open_position s op ?amount = Inr s'"
      using h by (auto simp: open_position_def Let_def)
    from open_position_changes [OF s'] h have "s' \<noteq> s" by auto
    moreover from True h s' have "open_verified s [op] = Inr s'" by (simp add: Let_def)
    moreover from True h have "\<not> 25 \<le> get_region_allocated s (region_of (city op))"
      by (auto simp: region_has_capacity_def MAX_REGION_EXPOSURE_def)
    ultimately show ?thesis by simp
  qed
next
  show "(case open_verified (AutoPortfolio 100)
           [candidate ''a'' ''miami'' (27 / 100), candidate ''b'' ''dallas'' (27 / 100),
            candidate ''c'' ''houston'' (27 / 100), candidate ''d'' ''atlanta'' (27 / 100)] of
         Inl e \<Rightarrow> False
       | Inr s' \<Rightarrow> map fst (positions s') = [''a'', ''b'', ''c'']
                  \<and> get_region_allocated s' ''south'' = 271 / 10
                  \<and> capital_total s' = 100)"
    by (rule open_verified_example)
qed

theorem region_cap_admission_witness:
  "capital_total one_open = 100 \<and> can_open_position one_open
   \<and> yes_price (candidate ''b'' ''dallas'' (27 / 100)) \<noteq> 0
   \<and> 1 \<le> calc_position_size (capital_disponible one_open) (yes_price (candidate ''b'' ''dallas'' (27 / 100)))
   \<and> region_has_capacity one_open ''dallas''
   \<and> get_region_allocated one_open ''south'' = 10
   \<and> open_verified one_open [candidate ''b'' ''dallas'' (27 / 100)] \<noteq> Inr one_open"
proof -
  note t = region_cap_admission [of one_open "''dallas''" "candidate ''b'' ''dallas'' (27 / 100)"]
  have g: "get_region_allocated one_open ''south'' = 10"
    by (simp add: get_region_allocated_def one_open_def held_def candidate_def region_south)
  have h: "capital_total one_open = 100 \<and> can_open_position one_open
        \<and> yes_price (candidate ''b'' ''dallas'' (27 / 100)) \<noteq> 0
        \<and> 1 \<le> calc_position_size (capital_disponible one_open)
                 (yes_price (candidate ''b'' ''dallas'' (27 / 100)))"
    by (simp add: one_open_def can_open_position_def MAX_POSITIONS_def candidate_def size_at_max)
  from t [THEN conjunct2, THEN conjunct2, THEN conjunct1] h
  have "(open_verified one_open [candidate ''b'' ''dallas'' (27 / 100)] = Inr one_open)
        = (25 \<le> get_region_allocated one_open (region_of (city (candidate ''b'' ''dallas'' (27 / 100)))))"
    by (rule mp)
  then have n: "open_verified one_open [candidate ''b'' ''dallas'' (27 / 100)] \<noteq> Inr one_open"
    by (simp add: candidate_def region_south g)
  have ct: "capital_total one_open = 100" by (simp add: one_open_def)
  from t [THEN conjunct1] have c: "region_has_capacity one_open ''dallas''"
    by (simp add: region_south g ct)
  from h c g n show ?thesis by simp
qed

subsection \<open>Partial exits\<close>

lemma map_of_in_keys: "map_of al k = Some v \<Longrightarrow> k \<in> fst ` set al"
  using map_of_eq_None_iff [of al k] by auto

lemma update_present_keys:
  "map_of al k = Some v \<Longrightarrow> map fst (AList.update k v' al) = map fst al"
  by (simp add: update_keys map_of_in_keys)

lemma one_open_at_reached:
  "apply_price_updates one_open [(''m1'', 31 / 100, 69 / 100)] = one_open_at (31 / 100)"
  by (simp add: apply_price_updates_def one_open_def one_open_at_def held_def STOP_LOSS_DROP_def
      drop_031_025)

text \<open>
  Claim C4. A partial exit of one half on an open position halves its tokens, its
  allocated capital and its maximal gain, credits
  \<open>tokens_sold * current_yes - allocated_sold\<close> to \<open>capital_total\<close>, keeps
  \<open>tokens * entry_yes = allocated\<close> and, under that equation, the credited amount is
  \<open>0.5 * allocated * (current_yes / entry_yes - 1)\<close>. The stage becomes the one passed,
  one more than before in the two calls of \<open>check_progressive_exits\<close>; a record with the
  label is appended to the history, and the position stays open.
\<close>

theorem partial_exit_half:
  assumes "map_of (positions s) cid = Some pos"
  shows "(\<exists>s' pos' r.
       partial_exit s cid (1 / 2) (exit_stage pos + 1) label = Inr s'
     \<and> map_of (positions s') cid = Some pos'
     \<and> map fst (positions s') = map fst (positions s)
     \<and> tokens pos' = tokens pos / 2
     \<and> allocated pos' = allocated pos / 2
     \<and> max_gain pos' = max_gain pos / 2
     \<and> exit_stage pos' = exit_stage pos + 1
     \<and> entry_yes pos' = entry_yes pos
     \<and> capital_total s'
         = capital_total s + (tokens pos / 2 * current_yes pos - allocated pos / 2)
     \<and> capital_disponible s'
         = capital_disponible s + allocated pos / 2
           + (tokens pos / 2 * current_yes pos - allocated pos / 2)
     \<and> (tokens pos * entry_yes pos = allocated pos
          \<longrightarrow> tokens pos' * entry_yes pos' = allocated pos')
     \<and> closed_positions s' = closed_positions s @ [PartialExit r]
     \<and> pr_status r = label \<and> pr_condition_id r = cid
     \<and> pr_pnl r = py_round (tokens pos / 2 * current_yes pos - allocated pos / 2) 2)
   \<and> (tokens pos * entry_yes pos = allocated pos \<and> entry_yes pos \<noteq> 0 \<longrightarrow>
        tokens pos / 2 * current_yes pos - allocated pos / 2
        = 1 / 2 * allocated pos * (current_yes pos / entry_yes pos - 1))
   \<and> (exit_stage pos = 0 \<and> EXIT_1_THRESHOLD \<le> current_yes pos \<longrightarrow>
        exits_loop s [(cid, pos)] = partial_exit s cid (1 / 2) (exit_stage pos + 1) PARTIAL_1)
   \<and> (exit_stage pos = 1 \<and> EXIT_2_THRESHOLD \<le> current_yes pos \<longrightarrow>
        exits_loop s [(cid, pos)] = partial_exit s cid (1 / 2) (exit_stage pos + 1) PARTIAL_2)"
proof (intro conjI impI)
  show "\<exists>s' pos' r.
       partial_exit s cid (1 / 2) (exit_stage pos + 1) label = Inr s'
     \<and> map_of (positions s') cid = Some pos'
     \<and> map fst (positions s') = map fst (positions s)
     \<and> tokens pos' = tokens pos / 2
     \<and> allocated pos' = allocated pos / 2
     \<and> max_gain pos' = max_gain pos / 2
     \<and> exit_stage pos' = exit_stage pos + 1
     \<and> entry_yes pos' = entry_yes pos
     \<and> capital_total s'
         = capital_total s + (tokens pos / 2 * current_yes pos - allocated pos / 2)
     \<and> capital_disponible s'
         = capital_disponible s + allocated pos / 2
           + (tokens pos / 2 * current_yes pos - allocated pos / 2)
     \<and> (tokens pos * entry_yes pos = allocated pos
          \<longrightarrow> tokens pos' * entry_yes pos' = allocated pos')
     \<and> closed_positions s' = closed_positions s @ [PartialExit r]
     \<and> pr_status r = label \<and> pr_condition_id r = cid
     \<and> pr_pnl r = py_round (tokens pos / 2 * current_yes pos - allocated pos / 2) 2"
    using assms
    by (simp add: partial_exit_def Let_def update_conv' update_present_keys)
next
  assume h: "tokens pos * entry_yes pos = allocated pos \<and> entry_yes pos \<noteq> 0"
  then have "tokens pos = allocated pos / entry_yes pos"
    by (simp add: nonzero_eq_divide_eq)
  then show "tokens pos / 2 * current_yes pos - allocated pos / 2
        = 1 / 2 * allocated pos * (current_yes pos / entry_yes pos - 1)"
    by (simp add: algebra_simps)
next
  assume "exit_stage pos = 0 \<and> EXIT_1_THRESHOLD \<le> current_yes pos"
  then show "exits_loop s [(cid, pos)] = partial_exit s cid (1 / 2) (exit_stage pos + 1) PARTIAL_1"
    by (simp add: Let_def split: sum.split)
next
  assume h: "exit_stage pos = 1 \<and> EXIT_2_THRESHOLD \<le> current_yes pos"
  then have e: "exit_stage pos + 1 = 2" by simp
  show "exits_loop s [(cid, pos)] = partial_exit s cid (1 / 2) (exit_stage pos + 1) PARTIAL_2"
    unfolding e using h by (simp add: Let_def split: sum.split)
qed

theorem partial_exit_half_witness:
  "map_of (positions (one_open_at (31 / 100))) ''m1''
     = Some (held ''m1'' ''miami'' (25 / 100) (31 / 100) 10 0)
   \<and> (\<exists>s' pos'. partial_exit (one_open_at (31 / 100)) ''m1'' (1 / 2) 1 PARTIAL_1 = Inr s'
         \<and> map_of (positions s') ''m1'' = Some pos'
         \<and> tokens pos' = 20 \<and> allocated pos' = 5 \<and> exit_stage pos' = 1
         \<and> capital_total s' = 1012 / 10 \<and> capital_disponible s' = 962 / 10)"
proof -
  let ?pos = "held ''m1'' ''miami'' (25 / 100) (31 / 100) 10 0"
  have m: "map_of (positions (one_open_at (31 / 100))) ''m1'' = Some ?pos"
    by (simp add: one_open_at_def)
  have v: "tokens ?pos = 40" "allocated ?pos = 10" "exit_stage ?pos = 0"
    "current_yes ?pos = 31 / 100"
    by (simp_all add: held_def)
  from partial_exit_half [OF m, of PARTIAL_1, THEN conjunct1]
  obtain s' pos' where
    "partial_exit (one_open_at (31 / 100)) ''m1'' (1 / 2) (exit_stage ?pos + 1) PARTIAL_1 = Inr s'"
    "map_of (positions s') ''m1'' = Some pos'"
    "tokens pos' = tokens ?pos / 2" "allocated pos' = allocated ?pos / 2"
    "exit_stage pos' = exit_stage ?pos + 1"
    "capital_total s' = capital_total (one_open_at (31 / 100))
        + (tokens ?pos / 2 * current_yes ?pos - allocated ?pos / 2)"
    "capital_disponible s' = capital_disponible (one_open_at (31 / 100)) + allocated ?pos / 2
        + (tokens ?pos / 2 * current_yes ?pos - allocated ?pos / 2)"
    by (elim exE conjE)
  then have "partial_exit (one_open_at (31 / 100)) ''m1'' (1 / 2) 1 PARTIAL_1 = Inr s'
         \<and> map_of (positions s') ''m1'' = Some pos'
         \<and> tokens pos' = 20 \<and> allocated pos' = 5 \<and> exit_stage pos' = 1
         \<and> capital_total s' = 1012 / 10 \<and> capital_disponible s' = 962 / 10"
    unfolding v by (simp add: one_open_at_def)
  then have "\<exists>s' pos'. partial_exit (one_open_at (31 / 100)) ''m1'' (1 / 2) 1 PARTIAL_1 = Inr s'
         \<and> map_of (positions s') ''m1'' = Some pos'
         \<and> tokens pos' = 20 \<and> allocated pos' = 5 \<and> exit_stage pos' = 1
         \<and> capital_total s' = 1012 / 10 \<and> capital_disponible s' = 962 / 10"
    by (intro exI)
  with m show ?thesis by (intro conjI)
qed

subsection \<open>Price updates: resolution and stop loss\<close>

lemma collect_closings_Cons:
  "collect_closings s ((cid, yes, no) # pm) tc =
     (case map_of (positions s) cid of
        None \<Rightarrow> collect_closings s pm tc
      | Some pos0 \<Rightarrow>
          collect_closings
            (s\<lparr>positions := AList.update cid (pos0\<lparr>current_yes := yes\<rparr>) (positions s)\<rparr>)
            pm (tc @ closing_of cid pos0 yes no))"
  by (simp add: closing_of_def Let_def split: option.split)

declare collect_closings.simps(2) [simp del]

lemma collect_closings_other:
  "cid \<notin> fst ` set pm \<Longrightarrow> collect_closings s pm tc0 = (s1, tc) \<Longrightarrow>
     map_of (positions s1) cid = map_of (positions s) cid
     \<and> filter (\<lambda>e. fst e = cid) tc = filter (\<lambda>e. fst e = cid) tc0"
proof (induction pm arbitrary: s tc0)
  case Nil
  then show ?case by simp
next
  case (Cons e pm)
  obtain c y n where e: "e = (c, y, n)" by (cases e) auto
  with Cons.prems have ne: "c \<noteq> cid" and rest: "cid \<notin> fst ` set pm" by auto
  show ?case
  proof (cases "map_of (positions s) c")
    case None
    with Cons.prems e have "collect_closings s pm tc0 = (s1, tc)"
      by (simp add: collect_closings_Cons)
    from Cons.IH [OF rest this] show ?thesis .
  next
    case (Some pos0)
    let ?s = "s\<lparr>positions := AList.update c (pos0\<lparr>current_yes := y\<rparr>) (positions s)\<rparr>"
    from Cons.prems e Some
    have "collect_closings ?s pm (tc0 @ closing_of c pos0 y n) = (s1, tc)"
      by (simp add: collect_closings_Cons)
    from Cons.IH [OF rest this] ne show ?thesis
      by (auto simp: update_conv' closing_of_def)
  qed
qed

lemma collect_closings_entry:
  "distinct (map fst pm) \<Longrightarrow> (cid, yes, no) \<in> set pm \<Longrightarrow>
   map_of (positions s) cid = Some pos \<Longrightarrow> collect_closings s pm tc0 = (s1, tc) \<Longrightarrow>
     map_of (positions s1) cid = Some (pos\<lparr>current_yes := yes\<rparr>)
     \<and> filter (\<lambda>e. fst e = cid) tc = filter (\<lambda>e. fst e = cid) tc0 @ closing_of cid pos yes no"
proof (induction pm arbitrary: s tc0)
  case Nil
  then show ?case by simp
next
  case (Cons e pm)
  obtain c y n where e: "e = (c, y, n)" by (cases e) auto
  show ?case
  proof (cases "c = cid")
    case True
    with Cons.prems e have notin: "cid \<notin> fst ` set pm" by auto
    with Cons.prems e True have eq: "y = yes" "n = no" by (auto simp: image_iff)
    let ?s = "s\<lparr>positions := AList.update cid (pos\<lparr>current_yes := yes\<rparr>) (positions s)\<rparr>"
    from Cons.prems e True eq
    have "collect_closings ?s pm (tc0 @ closing_of cid pos yes no) = (s1, tc)"
      by (simp add: collect_closings_Cons)
    from collect_closings_other [OF notin this] show ?thesis
      by (auto simp: update_conv' closing_of_def)
  next
    case False
    with Cons.prems e have mem: "(cid, yes, no) \<in> set pm" and d: "distinct (map fst pm)"
      by auto
    show ?thesis
    proof (cases "map_of (positions s) c")
      case None
      with Cons.prems e have "collect_closings s pm tc0 = (s1, tc)"
        by (simp add: collect_closings_Cons)
      from Cons.IH [OF d mem Cons.prems(3) this] show ?thesis .
    next
      case (Some pos0)
      let ?s = "s\<lparr>positions := AList.update c (pos0\<lparr>current_yes := y\<rparr>) (positions s)\<rparr>"
      from Cons.prems e Some
      have run: "collect_closings ?s pm (tc0 @ closing_of c pos0 y n) = (s1, tc)"
        by (simp add: collect_closings_Cons)
      have "map_of (positions ?s) cid = Some pos"
        using False Cons.prems(3) by (simp add: update_conv')
      from Cons.IH [OF d mem this run] False show ?thesis
        by (auto simp: closing_of_def)
    qed
  qed
qed

lemma collect_closings_pending_keys:
  "distinct (map fst pm) \<Longrightarrow> collect_closings s pm tc0 = (s1, tc) \<Longrightarrow>
     \<exists>ks. map fst tc = map fst tc0 @ ks \<and> set ks \<subseteq> fst ` set pm \<and> distinct ks"
proof (induction pm arbitrary: s tc0)
  case Nil
  then show ?case by simp
next
  case (Cons e pm)
  obtain c y n where e: "e = (c, y, n)" by (cases e) auto
  from Cons.prems e have d: "distinct (map fst pm)" and notin: "c \<notin> fst ` set pm" by auto
  show ?case
  proof (cases "map_of (positions s) c")
    case None
    with Cons.prems e have "collect_closings s pm tc0 = (s1, tc)"
      by (simp add: collect_closings_Cons)
    from Cons.IH [OF d this] show ?thesis by auto
  next
    case (Some pos0)
    let ?s = "s\<lparr>positions := AList.update c (pos0\<lparr>current_yes := y\<rparr>) (positions s)\<rparr>"
    from Cons.prems e Some
    have "collect_closings ?s pm (tc0 @ closing_of c pos0 y n) = (s1, tc)"
      by (simp add: collect_closings_Cons)
    from Cons.IH [OF d this] obtain ks where
      ks: "map fst tc = map fst (tc0 @ closing_of c pos0 y n) @ ks"
          "set ks \<subseteq> fst ` set pm" "distinct ks"
      by blast
    have "set (map fst (closing_of c pos0 y n)) \<subseteq> {c}" "distinct (map fst (closing_of c pos0 y n))"
      by (auto simp: closing_of_def)
    with ks notin e
    have "map fst tc = map fst tc0 @ (map fst (closing_of c pos0 y n) @ ks)
          \<and> set (map fst (closing_of c pos0 y n) @ ks) \<subseteq> fst ` set (e # pm)
          \<and> distinct (map fst (closing_of c pos0 y n) @ ks)"
      by auto
    then show ?thesis by blast
  qed
qed

lemma close_position_other:
  "c \<noteq> cid \<Longrightarrow>
     map_of (positions (close_position s c st pl res)) cid = map_of (positions s) cid"
  by (simp add: close_position_def Let_def split: option.split)

lemma close_position_keys:
  "fst ` set (positions (close_position s c st pl res)) \<subseteq> fst ` set (positions s)"
  using dom_delete_subset [of c "positions s"]
  by (simp add: close_position_def Let_def split: option.split)

lemma close_position_history:
  "set (closed_positions s) \<subseteq> set (closed_positions (close_position s c st pl res))"
  by (auto simp: close_position_def Let_def split: option.split)

lemma close_all_other:
  "cid \<notin> fst ` set tc \<Longrightarrow> map_of (positions (close_all s tc)) cid = map_of (positions s) cid"
proof (induction tc arbitrary: s)
  case Nil
  then show ?case by simp
next
  case (Cons e tc)
  obtain c st pl res where e: "e = (c, st, pl, res)" by (cases e) auto
  with Cons.prems have "c \<noteq> cid" "cid \<notin> fst ` set tc" by auto
  with Cons.IH [of "close_position s c st pl res"] e show ?case
    by (simp add: close_position_other)
qed

lemma close_all_keys: "fst ` set (positions (close_all s tc)) \<subseteq> fst ` set (positions s)"
proof (induction tc arbitrary: s)
  case Nil
  then show ?case by simp
next
  case (Cons e tc)
  obtain c st pl res where e: "e = (c, st, pl, res)" by (cases e) auto
  from Cons.IH [of "close_position s c st pl res"] close_position_keys [of s c st pl res] e
  show ?case by auto
qed

lemma close_all_history: "set (closed_positions s) \<subseteq> set (closed_positions (close_all s tc))"
proof (induction tc arbitrary: s)
  case Nil
  then show ?case by simp
next
  case (Cons e tc)
  obtain c st pl res where e: "e = (c, st, pl, res)" by (cases e) auto
  from Cons.IH [of "close_position s c st pl res"] close_position_history [of s c st pl res] e
  show ?case by auto
qed

lemma close_all_closes:
  "distinct (map fst tc) \<Longrightarrow> (cid, st, pl, res) \<in> set tc \<Longrightarrow>
   map_of (positions s) cid = Some pos \<Longrightarrow>
     cid \<notin> fst ` set (positions (close_all s tc))
     \<and> FullClose (pos\<lparr>status := st, pnl := pl, resolution := res\<rparr>)
         \<in> set (closed_positions (close_all s tc))"
proof (induction tc arbitrary: s)
  case Nil
  then show ?case by simp
next
  case (Cons e tc)
  obtain c st' pl' res' where e: "e = (c, st', pl', res')" by (cases e) auto
  let ?s = "close_position s c st' pl' res'"
  show ?case
  proof (cases "c = cid")
    case True
    with Cons.prems e have same: "st' = st" "pl' = pl" "res' = res"
      by (auto simp: image_iff)
    from Cons.prems(3) True have gone: "cid \<notin> fst ` set (positions ?s)"
      by (simp add: close_position_def Let_def delete_notin_dom)
    from Cons.prems(3) True same
    have "FullClose (pos\<lparr>status := st, pnl := pl, resolution := res\<rparr>) \<in> set (closed_positions ?s)"
      by (simp add: close_position_def Let_def)
    with gone close_all_keys [of ?s tc] close_all_history [of ?s tc] e show ?thesis
      by auto
  next
    case False
    with Cons.prems e have "distinct (map fst tc)" "(cid, st, pl, res) \<in> set tc"
      "map_of (positions ?s) cid = Some pos"
      by (auto simp: close_position_other)
    from Cons.IH [OF this] e show ?thesis by simp
  qed
qed

lemma filter_key_empty: "filter (\<lambda>e. fst e = k) xs = [] \<Longrightarrow> k \<notin> fst ` set xs"
  by (auto simp: filter_empty_conv)

lemma filter_key_member:
  assumes "filter (\<lambda>e. fst e = k) xs = [x]"
  shows "x \<in> set xs"
proof -
  have "x \<in> set (filter (\<lambda>e. fst e = k) xs)" by (simp add: assms)
  then show ?thesis by simp
qed

lemma apply_price_updates_entry:
  assumes "distinct (map fst pm)" and "(cid, yes, no) \<in> set pm"
    and "map_of (positions s) cid = Some pos"
  shows "(closing_of cid pos yes no = [] \<longrightarrow>
            map_of (positions (apply_price_updates s pm)) cid = Some (pos\<lparr>current_yes := yes\<rparr>))
       \<and> (closing_of cid pos yes no = [(cid, st, pl, res)] \<longrightarrow>
            cid \<notin> fst ` set (positions (apply_price_updates s pm))
            \<and> FullClose (pos\<lparr>current_yes := yes, status := st, pnl := pl, resolution := res\<rparr>)
                \<in> set (closed_positions (apply_price_updates s pm)))
       \<and> filter (\<lambda>e. fst e = cid) (snd (collect_closings s pm [])) = closing_of cid pos yes no"
proof -
  let ?s' = "apply_price_updates s pm"
  obtain s1 tc where run: "collect_closings s pm [] = (s1, tc)"
    by (cases "collect_closings s pm []") auto
  from collect_closings_entry [OF assms run]
  have cur: "map_of (positions s1) cid = Some (pos\<lparr>current_yes := yes\<rparr>)"
    and pend: "filter (\<lambda>e. fst e = cid) tc = closing_of cid pos yes no"
    by simp_all
  from collect_closings_pending_keys [OF assms(1) run] have d: "distinct (map fst tc)"
    by auto
  have res: "?s' = close_all s1 tc"
    by (simp add: apply_price_updates_def run)
  have stays: "closing_of cid pos yes no = [] \<longrightarrow>
            map_of (positions ?s') cid = Some (pos\<lparr>current_yes := yes\<rparr>)"
  proof
    assume "closing_of cid pos yes no = []"
    with pend have "cid \<notin> fst ` set tc" by (simp add: filter_key_empty)
    from close_all_other [OF this, of s1] cur res
    show "map_of (positions ?s') cid = Some (pos\<lparr>current_yes := yes\<rparr>)"
      by simp
  qed
  have closes: "closing_of cid pos yes no = [(cid, st, pl, res)] \<longrightarrow>
            cid \<notin> fst ` set (positions ?s')
            \<and> FullClose (pos\<lparr>current_yes := yes, status := st, pnl := pl, resolution := res\<rparr>)
                \<in> set (closed_positions ?s')"
  proof
    assume "closing_of cid pos yes no = [(cid, st, pl, res)]"
    with pend have "(cid, st, pl, res) \<in> set tc" by (simp add: filter_key_member)
    from close_all_closes [OF d this cur] res
    show "cid \<notin> fst ` set (positions ?s')
            \<and> FullClose (pos\<lparr>current_yes := yes, status := st, pnl := pl, resolution := res\<rparr>)
                \<in> set (closed_positions ?s')"
      by simp
  qed
  have coll: "filter (\<lambda>e. fst e = cid) (snd (collect_closings s pm [])) = closing_of cid pos yes no"
    using pend run by simp
  from stays closes coll show ?thesis by (intro conjI)
qed

text \<open>What \<open>apply_price_updates\<close> does to an open position that gets a price pair (a
  price map has one entry per market id): a yes price of at least 0.99 closes it as WON with
  pnl \<open>tokens * yes - allocated\<close>; otherwise a no price of at least 0.99 closes it as LOST
  with pnl \<open>- allocated\<close>; otherwise, when the float difference \<^verbatim>\<open>yes - entry_yes\<close> is
  at most the float \<^verbatim>\<open>-0.05\<close>, it closes as STOPPED with pnl
  \<open>tokens * yes - allocated\<close>; otherwise it stays open and only \<open>current_yes\<close> is changed.
  For a resolved market no STOPPED closing is collected.\<close>

lemma price_update_cases:
  assumes "distinct (map fst pm)" and "(cid, yes, no) \<in> set pm"
    and "map_of (positions s) cid = Some pos"
  shows "(99 / 100 \<le> yes \<longrightarrow>
            cid \<notin> fst ` set (positions (apply_price_updates s pm))
            \<and> FullClose (pos\<lparr>current_yes := yes, status := WON,
                  pnl := tokens pos * yes - allocated pos, resolution := YesResolved yes\<rparr>)
                \<in> set (closed_positions (apply_price_updates s pm)))
       \<and> (yes < 99 / 100 \<and> 99 / 100 \<le> no \<longrightarrow>
            cid \<notin> fst ` set (positions (apply_price_updates s pm))
            \<and> FullClose (pos\<lparr>current_yes := yes, status := LOST,
                  pnl := - allocated pos, resolution := NoResolved no\<rparr>)
                \<in> set (closed_positions (apply_price_updates s pm)))
       \<and> (yes < 99 / 100 \<and> no < 99 / 100
            \<and> py_sub yes (entry_yes pos) \<le> - py_float (5 / 100) \<longrightarrow>
            cid \<notin> fst ` set (positions (apply_price_updates s pm))
            \<and> FullClose (pos\<lparr>current_yes := yes, status := STOPPED,
                  pnl := tokens pos * yes - allocated pos,
                  resolution := StopLossHit yes (entry_yes pos) (- py_sub yes (entry_yes pos))\<rparr>)
                \<in> set (closed_positions (apply_price_updates s pm)))
       \<and> (yes < 99 / 100 \<and> no < 99 / 100
            \<and> \<not> py_sub yes (entry_yes pos) \<le> - py_float (5 / 100) \<longrightarrow>
            map_of (positions (apply_price_updates s pm)) cid = Some (pos\<lparr>current_yes := yes\<rparr>))
       \<and> (99 / 100 \<le> yes \<or> 99 / 100 \<le> no \<longrightarrow>
            (\<forall>e \<in> set (snd (collect_closings s pm [])). fst e = cid \<longrightarrow> fst (snd e) \<noteq> STOPPED))"
proof -
  let ?s' = "apply_price_updates s pm"
  note closes = apply_price_updates_entry [OF assms, THEN conjunct2, THEN conjunct1]
  have won: "99 / 100 \<le> yes \<longrightarrow>
            cid \<notin> fst ` set (positions ?s')
            \<and> FullClose (pos\<lparr>current_yes := yes, status := WON,
                  pnl := tokens pos * yes - allocated pos, resolution := YesResolved yes\<rparr>)
                \<in> set (closed_positions ?s')"
  proof
    assume "99 / 100 \<le> yes"
    then have "closing_of cid pos yes no
               = [(cid, WON, tokens pos * yes - allocated pos, YesResolved yes)]"
      by (simp add: closing_of_def)
    with closes
    show "cid \<notin> fst ` set (positions ?s')
            \<and> FullClose (pos\<lparr>current_yes := yes, status := WON,
                  pnl := tokens pos * yes - allocated pos, resolution := YesResolved yes\<rparr>)
                \<in> set (closed_positions ?s')"
      by (rule mp)
  qed
  have lost: "yes < 99 / 100 \<and> 99 / 100 \<le> no \<longrightarrow>
            cid \<notin> fst ` set (positions ?s')
            \<and> FullClose (pos\<lparr>current_yes := yes, status := LOST,
                  pnl := - allocated pos, resolution := NoResolved no\<rparr>)
                \<in> set (closed_positions ?s')"
  proof
    assume "yes < 99 / 100 \<and> 99 / 100 \<le> no"
    then have "closing_of cid pos yes no = [(cid, LOST, - allocated pos, NoResolved no)]"
      by (simp add: closing_of_def)
    with closes
    show "cid \<notin> fst ` set (positions ?s')
            \<and> FullClose (pos\<lparr>current_yes := yes, status := LOST,
                  pnl := - allocated pos, resolution := NoResolved no\<rparr>)
                \<in> set (closed_positions ?s')"
      by (rule mp)
  qed
  have stopped: "yes < 99 / 100 \<and> no < 99 / 100
            \<and> py_sub yes (entry_yes pos) \<le> - py_float (5 / 100) \<longrightarrow>
            cid \<notin> fst ` set (positions ?s')
            \<and> FullClose (pos\<lparr>current_yes := yes, status := STOPPED,
                  pnl := tokens pos * yes - allocated pos,
                  resolution := StopLossHit yes (entry_yes pos) (- py_sub yes (entry_yes pos))\<rparr>)
                \<in> set (closed_positions ?s')"
  proof
    assume "yes < 99 / 100 \<and> no < 99 / 100
            \<and> py_sub yes (entry_yes pos) \<le> - py_float (5 / 100)"
    then have "closing_of cid pos yes no
               = [(cid, STOPPED, tokens pos * yes - allocated pos,
                   StopLossHit yes (entry_yes pos) (- py_sub yes (entry_yes pos)))]"
      by (simp add: closing_of_def STOP_LOSS_DROP_def)
    with closes
    show "cid \<notin> fst ` set (positions ?s')
            \<and> FullClose (pos\<lparr>current_yes := yes, status := STOPPED,
                  pnl := tokens pos * yes - allocated pos,
                  resolution := StopLossHit yes (entry_yes pos) (- py_sub yes (entry_yes pos))\<rparr>)
                \<in> set (closed_positions ?s')"
      by (rule mp)
  qed
  have stays: "yes < 99 / 100 \<and> no < 99 / 100
            \<and> \<not> py_sub yes (entry_yes pos) \<le> - py_float (5 / 100) \<longrightarrow>
            map_of (positions ?s') cid = Some (pos\<lparr>current_yes := yes\<rparr>)"
  proof
    assume "yes < 99 / 100 \<and> no < 99 / 100
            \<and> \<not> py_sub yes (entry_yes pos) \<le> - py_float (5 / 100)"
    then have "closing_of cid pos yes no = []"
      by (simp add: closing_of_def STOP_LOSS_DROP_def)
    with apply_price_updates_entry [OF assms, THEN conjunct1]
    show "map_of (positions ?s') cid = Some (pos\<lparr>current_yes := yes\<rparr>)"
      by (rule mp)
  qed
  have never: "99 / 100 \<le> yes \<or> 99 / 100 \<le> no \<longrightarrow>
            (\<forall>e \<in> set (snd (collect_closings s pm [])). fst e = cid \<longrightarrow> fst (snd e) \<noteq> STOPPED)"
  proof
    assume h: "99 / 100 \<le> yes \<or> 99 / 100 \<le> no"
    have f: "filter (\<lambda>e. fst e = cid) (snd (collect_closings s pm [])) = closing_of cid pos yes no"
      using apply_price_updates_entry [OF assms] by simp
    show "\<forall>e \<in> set (snd (collect_closings s pm [])). fst e = cid \<longrightarrow> fst (snd e) \<noteq> STOPPED"
    proof (intro ballI impI)
      fix e assume "e \<in> set (snd (collect_closings s pm []))" "fst e = cid"
      then have "e \<in> set (filter (\<lambda>e. fst e = cid) (snd (collect_closings s pm [])))" by simp
      with f have "e \<in> set (closing_of cid pos yes no)" by simp
      with h show "fst (snd e) \<noteq> STOPPED"
        by (auto simp: closing_of_def split: if_splits)
    qed
  qed
  from won lost stopped stays never show ?thesis by (intro conjI)
qed

text \<open>The four outcomes on the ledger \<open>one_open\<close>, whose position was entered at 0.25:
  resolved for yes, resolved for no, stopped at 0.19 and kept at 0.26.\<close>

lemma price_update_examples:
  "''m1'' \<notin> fst ` set (positions (apply_price_updates one_open [(''m1'', 99 / 100, 1 / 100)]))
   \<and> ''m1'' \<notin> fst ` set (positions (apply_price_updates one_open [(''m1'', 1 / 100, 99 / 100)]))
   \<and> ''m1'' \<notin> fst ` set (positions (apply_price_updates one_open [(''m1'', 19 / 100, 81 / 100)]))
   \<and> FullClose ((held ''m1'' ''miami'' (25 / 100) (19 / 100) 10 0)
         \<lparr>status := STOPPED, pnl := - (24 / 10),
          resolution := StopLossHit (19 / 100) (25 / 100) (1080863910568919 / 2 ^ 54)\<rparr>)
       \<in> set (closed_positions (apply_price_updates one_open [(''m1'', 19 / 100, 81 / 100)]))
   \<and> map_of (positions (apply_price_updates one_open [(''m1'', 26 / 100, 74 / 100)])) ''m1''
       = Some (held ''m1'' ''miami'' (25 / 100) (26 / 100) 10 0)"
proof -
  let ?pos = "held ''m1'' ''miami'' (25 / 100) (25 / 100) 10 0"
  have m: "map_of (positions one_open) ''m1'' = Some ?pos"
    by (simp add: one_open_def)
  have v: "tokens ?pos = 40" "allocated ?pos = 10" "entry_yes ?pos = 25 / 100"
    by (simp_all add: held_def)
  have upd: "?pos\<lparr>current_yes := y\<rparr> = held ''m1'' ''miami'' (25 / 100) y 10 0" for y
    by (simp add: held_def)
  have d: "distinct (map fst [(''m1'', y, n)])" for y n :: real by simp
  have i: "(''m1'', y, n) \<in> set [(''m1'', y, n)]" for y n :: real by simp
  note won = price_update_cases [OF d i m, of "99 / 100" "1 / 100", THEN conjunct1]
  note lost = price_update_cases [OF d i m, of "1 / 100" "99 / 100",
      THEN conjunct2, THEN conjunct1]
  note stopped = price_update_cases [OF d i m, of "19 / 100" "81 / 100",
      THEN conjunct2, THEN conjunct2, THEN conjunct1]
  note stays = price_update_cases [OF d i m, of "26 / 100" "74 / 100",
      THEN conjunct2, THEN conjunct2, THEN conjunct2, THEN conjunct1]
  have a: "''m1'' \<notin> fst ` set (positions (apply_price_updates one_open [(''m1'', 99 / 100, 1 / 100)]))"
    using won by simp
  have b: "''m1'' \<notin> fst ` set (positions (apply_price_updates one_open [(''m1'', 1 / 100, 99 / 100)]))"
    using lost by simp
  have c: "''m1'' \<notin> fst ` set (positions (apply_price_updates one_open [(''m1'', 19 / 100, 81 / 100)]))
      \<and> FullClose ((held ''m1'' ''miami'' (25 / 100) (19 / 100) 10 0)
           \<lparr>status := STOPPED, pnl := - (24 / 10),
            resolution := StopLossHit (19 / 100) (25 / 100) (1080863910568919 / 2 ^ 54)\<rparr>)
         \<in> set (closed_positions (apply_price_updates one_open [(''m1'', 19 / 100, 81 / 100)]))"
    using stopped unfolding v upd sub_019_025 fl_005 by simp
  have e: "map_of (positions (apply_price_updates one_open [(''m1'', 26 / 100, 74 / 100)])) ''m1''
       = Some (held ''m1'' ''miami'' (25 / 100) (26 / 100) 10 0)"
    using stays unfolding v upd sub_026_025 fl_005 by simp
  from a b c e show ?thesis by (intro conjI) (erule conjunct1 conjunct2 | assumption)+
qed

text \<open>
  Claim C2. The claim reads: a yes price that has fallen by at least 0.05 below
  \<open>entry_yes\<close> closes the position as STOPPED. The code does not do this at a fall of
  exactly 0.05 from the entry price 0.25: on the ledger \<open>one_open\<close>, whose position was
  entered at 0.25, the price pair (0.20, 0.80) leaves the position open, with only
  \<open>current_yes\<close> changed and nothing added to the history, because the float difference
  \<^verbatim>\<open>0.20 - 0.25\<close> is -0.04999999999999999 (the fraction
  \<open>- 900719925474099 / 2 ^ 54\<close>), which is above the float -0.05 (the fraction
  \<open>- 3602879701896397 / 2 ^ 56\<close>). The same fall of 0.05 from the entry price 0.27 to 0.22
  does close the position. The module docstring (a fixed drop of \<^verbatim>\<open>STOP_LOSS_DROP\<close>,
  5 cents, from \<^verbatim>\<open>entry_yes\<close>) and the comment on the constant in \<^verbatim>\<open>config.py\<close>
  promise a stop at 0.20.
\<close>

theorem stop_loss_misses_exact_drop:
  "apply_price_updates one_open [(''m1'', 20 / 100, 80 / 100)] = one_open_at (20 / 100)
   \<and> map_of (positions one_open) ''m1'' = Some (held ''m1'' ''miami'' (25 / 100) (25 / 100) 10 0)
   \<and> map_of (positions (one_open_at (20 / 100))) ''m1''
       = Some (held ''m1'' ''miami'' (25 / 100) (20 / 100) 10 0)
   \<and> closed_positions (one_open_at (20 / 100)) = []
   \<and> 20 / 100 = 25 / 100 - STOP_LOSS_DROP
   \<and> py_sub (20 / 100) (25 / 100) = - (900719925474099 / 2 ^ 54)
   \<and> py_float STOP_LOSS_DROP = 3602879701896397 / 2 ^ 56
   \<and> positions (apply_price_updates
         (one_open\<lparr>positions := [(''m1'', held ''m1'' ''miami'' (27 / 100) (27 / 100) 10 0)]\<rparr>)
         [(''m1'', 22 / 100, 78 / 100)]) = []
   \<and> 22 / 100 = 27 / 100 - STOP_LOSS_DROP"
proof (intro conjI)
  show "apply_price_updates one_open [(''m1'', 20 / 100, 80 / 100)] = one_open_at (20 / 100)"
    by (simp add: apply_price_updates_def collect_closings_Cons closing_of_def one_open_def
        one_open_at_def held_def STOP_LOSS_DROP_def drop_020_025)
  show "map_of (positions one_open) ''m1'' = Some (held ''m1'' ''miami'' (25 / 100) (25 / 100) 10 0)"
    by (simp add: one_open_def)
  show "map_of (positions (one_open_at (20 / 100))) ''m1''
       = Some (held ''m1'' ''miami'' (25 / 100) (20 / 100) 10 0)"
    by (simp add: one_open_at_def)
  show "closed_positions (one_open_at (20 / 100)) = []"
    by (simp add: one_open_at_def)
  show "20 / 100 = 25 / 100 - STOP_LOSS_DROP" by (simp add: STOP_LOSS_DROP_def)
  show "py_sub (20 / 100) (25 / 100) = - (900719925474099 / 2 ^ 54)" by (rule sub_020_025)
  show "py_float STOP_LOSS_DROP = 3602879701896397 / 2 ^ 56"
    unfolding STOP_LOSS_DROP_def by (rule fl_005)
  show "positions (apply_price_updates
         (one_open\<lparr>positions := [(''m1'', held ''m1'' ''miami'' (27 / 100) (27 / 100) 10 0)]\<rparr>)
         [(''m1'', 22 / 100, 78 / 100)]) = []"
    by (simp add: apply_price_updates_def collect_closings_Cons closing_of_def one_open_def
        close_position_def held_def STOP_LOSS_DROP_def drop_022_027 Let_def)
  show "22 / 100 = 27 / 100 - STOP_LOSS_DROP" by (simp add: STOP_LOSS_DROP_def)
qed

subsection \<open>Progressive exits\<close>

lemma exits_loop_idle:
  "(\<forall>(c, p) \<in> set items. \<not> due p) \<Longrightarrow> exits_loop s items = Inr s"
  by (induction items arbitrary: s) (auto simp: due_def Let_def)

lemma partial_exit_positions:
  "map_of (positions s) cid = Some pos \<Longrightarrow>
     \<exists>s1. partial_exit s cid (1 / 2) st label = Inr s1
          \<and> positions s1 = AList.update cid (halve pos st) (positions s)"
  by (simp add: partial_exit_def Let_def halve_def)

lemma exits_loop_Cons:
  assumes "map_of (positions s) cid = Some pos"
  shows "\<exists>s1. exits_loop s ((cid, pos) # items) = exits_loop s1 items
           \<and> map_of (positions s1) = (map_of (positions s))(cid := advance pos)
           \<and> (distinct (map fst (positions s)) \<longrightarrow> distinct (map fst (positions s1)))"
proof -
  consider (one) "exit_stage pos = 0 \<and> EXIT_1_THRESHOLD \<le> current_yes pos"
    | (two) "exit_stage pos = 1 \<and> EXIT_2_THRESHOLD \<le> current_yes pos"
    | (three) "exit_stage pos = 2 \<and> EXIT_3_THRESHOLD \<le> current_yes pos"
    | (none) "\<not> due pos"
    unfolding due_def by blast
  then show ?thesis
  proof cases
    case one
    from partial_exit_positions [OF assms, of 1 PARTIAL_1] obtain s1 where
      "partial_exit s cid (1 / 2) 1 PARTIAL_1 = Inr s1"
      "positions s1 = AList.update cid (halve pos 1) (positions s)"
      by blast
    with one show ?thesis
      by (intro exI [of _ s1])
        (auto simp: Let_def update_conv' advance_def distinct_update)
  next
    case two
    from partial_exit_positions [OF assms, of 2 PARTIAL_2] obtain s1 where
      "partial_exit s cid (1 / 2) 2 PARTIAL_2 = Inr s1"
      "positions s1 = AList.update cid (halve pos 2) (positions s)"
      by blast
    with two show ?thesis
      by (intro exI [of _ s1])
        (auto simp: Let_def update_conv' advance_def distinct_update)
  next
    case three
    let ?s1 = "close_position s cid WON (tokens pos * current_yes pos - allocated pos)
                 (Tramo3 (current_yes pos))"
    have "positions ?s1 = AList.delete cid (positions s)"
      using assms by (simp add: close_position_def Let_def)
    then show ?thesis
      using three
      by (intro exI [of _ ?s1])
        (auto simp: Let_def delete_conv' advance_def distinct_delete)
  next
    case none
    then have "advance pos = Some pos" by (auto simp: due_def advance_def)
    with none assms show ?thesis
      by (intro exI [of _ s]) (auto simp: due_def Let_def fun_upd_idem_iff)
  qed
qed

lemma exits_loop_spec:
  assumes "distinct (map fst items)"
    and "\<forall>(c, p) \<in> set items. map_of (positions s) c = Some p"
  shows "\<exists>s'. exits_loop s items = Inr s'
           \<and> (\<forall>c. map_of (positions s') c
                  = (if c \<in> fst ` set items
                     then (case map_of (positions s) c of None \<Rightarrow> None | Some p \<Rightarrow> advance p)
                     else map_of (positions s) c))
           \<and> (distinct (map fst (positions s)) \<longrightarrow> distinct (map fst (positions s')))"
  using assms
proof (induction items arbitrary: s)
  case Nil
  then show ?case by simp
next
  case (Cons e items)
  obtain cid pos where e: "e = (cid, pos)" by (cases e) auto
  from Cons.prems e have here: "map_of (positions s) cid = Some pos"
    and notin: "cid \<notin> fst ` set items" and d: "distinct (map fst items)"
    by auto
  from exits_loop_Cons [OF here, of items] obtain s1 where
    run: "exits_loop s ((cid, pos) # items) = exits_loop s1 items"
    and m1: "map_of (positions s1) = (map_of (positions s))(cid := advance pos)"
    and d1: "distinct (map fst (positions s)) \<longrightarrow> distinct (map fst (positions s1))"
    by blast
  have "\<forall>(c, p) \<in> set items. map_of (positions s1) c = Some p"
  proof (intro ballI, clarify)
    fix c p assume cp: "(c, p) \<in> set items"
    with notin have "c \<noteq> cid" by force
    with Cons.prems(2) cp m1 show "map_of (positions s1) c = Some p" by auto
  qed
  from Cons.IH [OF d this] obtain s' where
    r: "exits_loop s1 items = Inr s'"
    and m: "\<forall>c. map_of (positions s') c
                  = (if c \<in> fst ` set items
                     then (case map_of (positions s1) c of None \<Rightarrow> None | Some p \<Rightarrow> advance p)
                     else map_of (positions s1) c)"
    and d': "distinct (map fst (positions s1)) \<longrightarrow> distinct (map fst (positions s'))"
    by blast
  have "\<forall>c. map_of (positions s') c
                  = (if c \<in> fst ` set (e # items)
                     then (case map_of (positions s) c of None \<Rightarrow> None | Some p \<Rightarrow> advance p)
                     else map_of (positions s) c)"
  proof
    fix c
    show "map_of (positions s') c
                  = (if c \<in> fst ` set (e # items)
                     then (case map_of (positions s) c of None \<Rightarrow> None | Some p \<Rightarrow> advance p)
                     else map_of (positions s) c)"
    proof (cases "c = cid")
      case True
      with m notin m1 here e show ?thesis by simp
    next
      case False
      with m m1 e show ?thesis by simp
    qed
  qed
  with run r d1 d' e show ?case by simp
qed

lemma check_progressive_exits_spec:
  assumes "distinct (map fst (positions s))"
  shows "\<exists>s'. check_progressive_exits s = Inr s'
           \<and> (\<forall>c. map_of (positions s') c
                  = (case map_of (positions s) c of None \<Rightarrow> None | Some p \<Rightarrow> advance p))
           \<and> distinct (map fst (positions s'))"
proof -
  have "\<forall>(c, p) \<in> set (positions s). map_of (positions s) c = Some p"
    using assms by auto
  from exits_loop_spec [OF assms this] assms obtain s' where
    r: "exits_loop s (positions s) = Inr s'"
    and m: "\<forall>c. map_of (positions s') c
                  = (if c \<in> fst ` set (positions s)
                     then (case map_of (positions s) c of None \<Rightarrow> None | Some p \<Rightarrow> advance p)
                     else map_of (positions s) c)"
    and d: "distinct (map fst (positions s'))"
    by blast
  have "\<forall>c. map_of (positions s') c
                  = (case map_of (positions s) c of None \<Rightarrow> None | Some p \<Rightarrow> advance p)"
  proof
    fix c
    show "map_of (positions s') c
                  = (case map_of (positions s) c of None \<Rightarrow> None | Some p \<Rightarrow> advance p)"
    proof (cases "c \<in> fst ` set (positions s)")
      case True
      with m show ?thesis by simp
    next
      case False
      then have "map_of (positions s) c = None" by (simp add: map_of_eq_None_iff)
      with m False show ?thesis by simp
    qed
  qed
  with r d show ?thesis by (simp add: check_progressive_exits_def)
qed

lemma advance_cases:
  "(exit_stage pos = 0 \<and> EXIT_1_THRESHOLD \<le> current_yes pos \<longrightarrow> advance pos = Some (halve pos 1))
   \<and> (exit_stage pos = 1 \<and> EXIT_2_THRESHOLD \<le> current_yes pos \<longrightarrow> advance pos = Some (halve pos 2))
   \<and> (exit_stage pos = 2 \<and> EXIT_3_THRESHOLD \<le> current_yes pos \<longrightarrow> advance pos = None)
   \<and> (\<not> due pos \<longrightarrow> advance pos = Some pos)"
  by (auto simp: advance_def due_def)

lemma advance_twice:
  "(exit_stage pos = 0 \<and> EXIT_2_THRESHOLD \<le> current_yes pos \<longrightarrow>
      (case advance pos of None \<Rightarrow> None | Some p \<Rightarrow> advance p) = Some (halve (halve pos 1) 2))
   \<and> (exit_stage pos = 1 \<and> EXIT_3_THRESHOLD \<le> current_yes pos \<longrightarrow>
      (case advance pos of None \<Rightarrow> None | Some p \<Rightarrow> advance p) = None)
   \<and> (\<not> two_ahead pos \<longrightarrow>
      (case advance pos of None \<Rightarrow> None | Some p \<Rightarrow> advance p) = advance pos)"
  by (auto simp: advance_def halve_def two_ahead_def EXIT_1_THRESHOLD_def EXIT_2_THRESHOLD_def
      EXIT_3_THRESHOLD_def split: option.splits)

lemma advance_settled:
  "\<not> two_ahead pos \<Longrightarrow> advance pos = Some pos' \<Longrightarrow> \<not> due pos'"
  by (auto simp: advance_def halve_def two_ahead_def due_def split: if_splits)

lemma one_open_at_40_reached:
  "apply_price_updates one_open [(''m1'', 40 / 100, 60 / 100)] = one_open_at (40 / 100)"
  by (simp add: apply_price_updates_def collect_closings_Cons closing_of_def one_open_def
      one_open_at_def held_def STOP_LOSS_DROP_def drop_040_025)

text \<open>
  Claim C5, the claim as stated fails: a position at stage 0 whose price 0.40 is above the
  first two thresholds is at stage 1 with 5 allocated after one call of
  \<open>check_progressive_exits\<close> and, with no price change in between, at stage 2 with 2.5
  allocated after the next call.
\<close>

theorem exits_not_idempotent:
  "stage_alloc (check_progressive_exits (one_open_at (40 / 100))) = [(''m1'', 1, 5)]
   \<and> stage_alloc (exits_twice (one_open_at (40 / 100))) = [(''m1'', 2, 5 / 2)]"
  by (simp add: stage_alloc_def exits_twice_def check_progressive_exits_def one_open_at_def
      held_def partial_exit_def Let_def EXIT_1_THRESHOLD_def EXIT_2_THRESHOLD_def)

text \<open>
  Claim C5, amended. On a ledger (a dictionary: one entry per market id) a call of
  \<open>check_progressive_exits\<close> returns, and so does a second call right after it. The first
  call moves every open position by exactly what its own stage asks for: at stage 0 with a
  price of at least 0.31 the position is halved and at stage 1 afterwards, also when the
  price is above 0.37 or 0.43; at stage 1 with a price of at least 0.37 it is halved and
  at stage 2; at stage 2 with a price of at least 0.43 it is closed; any other position
  is unchanged, and no position appears. The call changes nothing at all when no open
  position has a price at or above the threshold of its stage. The second call, with no
  price change in between, moves on the positions whose price was also at or above the
  next threshold (from stage 0 with a price of at least 0.37 to stage 2 at a quarter of its
  size, from stage 1 with a price of at least 0.43 to closed) and leaves every other
  position as the first call left it; so it changes nothing at all when before the first
  call no price was at or above the threshold after the next one.
\<close>

theorem exits_one_stage_per_call:
  assumes "distinct (map fst (positions s))"
  shows "\<exists>s' s''. check_progressive_exits s = Inr s' \<and> check_progressive_exits s' = Inr s''
     \<and> (\<forall>cid pos. map_of (positions s) cid = Some pos \<longrightarrow>
            (exit_stage pos = 0 \<and> EXIT_1_THRESHOLD \<le> current_yes pos
               \<longrightarrow> map_of (positions s') cid = Some (halve pos 1))
          \<and> (exit_stage pos = 1 \<and> EXIT_2_THRESHOLD \<le> current_yes pos
               \<longrightarrow> map_of (positions s') cid = Some (halve pos 2))
          \<and> (exit_stage pos = 2 \<and> EXIT_3_THRESHOLD \<le> current_yes pos
               \<longrightarrow> map_of (positions s') cid = None)
          \<and> (\<not> due pos \<longrightarrow> map_of (positions s') cid = Some pos)
          \<and> (exit_stage pos = 0 \<and> EXIT_2_THRESHOLD \<le> current_yes pos
               \<longrightarrow> map_of (positions s'') cid = Some (halve (halve pos 1) 2))
          \<and> (exit_stage pos = 1 \<and> EXIT_3_THRESHOLD \<le> current_yes pos
               \<longrightarrow> map_of (positions s'') cid = None)
          \<and> (\<not> two_ahead pos \<longrightarrow> map_of (positions s'') cid = map_of (positions s') cid))
     \<and> (\<forall>cid. map_of (positions s) cid = None
            \<longrightarrow> map_of (positions s') cid = None \<and> map_of (positions s'') cid = None)
     \<and> ((\<forall>(cid, pos) \<in> set (positions s). \<not> due pos) \<longrightarrow> s' = s)
     \<and> ((\<forall>(cid, pos) \<in> set (positions s). \<not> two_ahead pos) \<longrightarrow> s'' = s')"
proof -
  from check_progressive_exits_spec [OF assms] obtain s' where
    r: "check_progressive_exits s = Inr s'"
    and m: "\<forall>c. map_of (positions s') c
                  = (case map_of (positions s) c of None \<Rightarrow> None | Some p \<Rightarrow> advance p)"
    and d: "distinct (map fst (positions s'))"
    by blast
  from check_progressive_exits_spec [OF d] obtain s'' where
    r2: "check_progressive_exits s' = Inr s''"
    and m2: "\<forall>c. map_of (positions s'') c
                  = (case map_of (positions s') c of None \<Rightarrow> None | Some p \<Rightarrow> advance p)"
    by blast
  have each: "\<forall>cid pos. map_of (positions s) cid = Some pos \<longrightarrow>
            (exit_stage pos = 0 \<and> EXIT_1_THRESHOLD \<le> current_yes pos
               \<longrightarrow> map_of (positions s') cid = Some (halve pos 1))
          \<and> (exit_stage pos = 1 \<and> EXIT_2_THRESHOLD \<le> current_yes pos
               \<longrightarrow> map_of (positions s') cid = Some (halve pos 2))
          \<and> (exit_stage pos = 2 \<and> EXIT_3_THRESHOLD \<le> current_yes pos
               \<longrightarrow> map_of (positions s') cid = None)
          \<and> (\<not> due pos \<longrightarrow> map_of (positions s') cid = Some pos)
          \<and> (exit_stage pos = 0 \<and> EXIT_2_THRESHOLD \<le> current_yes pos
               \<longrightarrow> map_of (positions s'') cid = Some (halve (halve pos 1) 2))
          \<and> (exit_stage pos = 1 \<and> EXIT_3_THRESHOLD \<le> current_yes pos
               \<longrightarrow> map_of (positions s'') cid = None)
          \<and> (\<not> two_ahead pos \<longrightarrow> map_of (positions s'') cid = map_of (positions s') cid)"
  proof (intro allI impI)
    fix cid pos
    assume h: "map_of (positions s) cid = Some pos"
    from m h have a1: "map_of (positions s') cid = advance pos" by simp
    from m2 a1 have a2: "map_of (positions s'') cid
        = (case advance pos of None \<Rightarrow> None | Some p \<Rightarrow> advance p)"
      by simp
    show "(exit_stage pos = 0 \<and> EXIT_1_THRESHOLD \<le> current_yes pos
               \<longrightarrow> map_of (positions s') cid = Some (halve pos 1))
          \<and> (exit_stage pos = 1 \<and> EXIT_2_THRESHOLD \<le> current_yes pos
               \<longrightarrow> map_of (positions s') cid = Some (halve pos 2))
          \<and> (exit_stage pos = 2 \<and> EXIT_3_THRESHOLD \<le> current_yes pos
               \<longrightarrow> map_of (positions s') cid = None)
          \<and> (\<not> due pos \<longrightarrow> map_of (positions s') cid = Some pos)
          \<and> (exit_stage pos = 0 \<and> EXIT_2_THRESHOLD \<le> current_yes pos
               \<longrightarrow> map_of (positions s'') cid = Some (halve (halve pos 1) 2))
          \<and> (exit_stage pos = 1 \<and> EXIT_3_THRESHOLD \<le> current_yes pos
               \<longrightarrow> map_of (positions s'') cid = None)
          \<and> (\<not> two_ahead pos \<longrightarrow> map_of (positions s'') cid = map_of (positions s') cid)"
      unfolding a1 a2 using advance_cases [of pos] advance_twice [of pos] by simp
  qed
  have absent: "\<forall>cid. map_of (positions s) cid = None
            \<longrightarrow> map_of (positions s') cid = None \<and> map_of (positions s'') cid = None"
    using m m2 by simp
  have idle: "(\<forall>(cid, pos) \<in> set (positions s). \<not> due pos) \<longrightarrow> s' = s"
  proof
    assume "\<forall>(cid, pos) \<in> set (positions s). \<not> due pos"
    then have "exits_loop s (positions s) = Inr s" by (rule exits_loop_idle)
    with r show "s' = s" by (simp add: check_progressive_exits_def)
  qed
  have again: "(\<forall>(cid, pos) \<in> set (positions s). \<not> two_ahead pos) \<longrightarrow> s'' = s'"
  proof
    assume h: "\<forall>(cid, pos) \<in> set (positions s). \<not> two_ahead pos"
    have "\<forall>(c, p') \<in> set (positions s'). \<not> due p'"
    proof (intro ballI, clarify)
      fix c p' assume "(c, p') \<in> set (positions s')" and due: "due p'"
      with d have "map_of (positions s') c = Some p'" by simp
      with m [rule_format, of c] obtain p where
        p: "map_of (positions s) c = Some p" "advance p = Some p'"
        by (cases "map_of (positions s) c") auto
      from p(1) have "(c, p) \<in> set (positions s)" by (rule map_of_SomeD)
      with h have "\<not> two_ahead p" by auto
      from advance_settled [OF this p(2)] due show False by simp
    qed
    then have "exits_loop s' (positions s') = Inr s'" by (rule exits_loop_idle)
    with r2 show "s'' = s'" by (simp add: check_progressive_exits_def)
  qed
  from r r2 each absent idle again show ?thesis by (intro exI [of _ s'] exI [of _ s''] conjI)
qed

theorem exits_one_stage_per_call_witness:
  "distinct (map fst (positions (one_open_at (40 / 100))))
   \<and> map_of (positions (one_open_at (40 / 100))) ''m1''
       = Some (held ''m1'' ''miami'' (25 / 100) (40 / 100) 10 0)
   \<and> (\<exists>s' s''. check_progressive_exits (one_open_at (40 / 100)) = Inr s'
          \<and> check_progressive_exits s' = Inr s''
          \<and> map_of (positions s') ''m1'' = Some (held ''m1'' ''miami'' (25 / 100) (40 / 100) 5 1)
          \<and> map_of (positions s'') ''m1''
              = Some (held ''m1'' ''miami'' (25 / 100) (40 / 100) (5 / 2) 2))
   \<and> distinct (map fst (positions one_open))
   \<and> list_all (\<lambda>(cid, pos). \<not> due pos) (positions one_open)
   \<and> check_progressive_exits one_open = Inr one_open"
proof -
  let ?pos = "held ''m1'' ''miami'' (25 / 100) (40 / 100) 10 0"
  have d: "distinct (map fst (positions (one_open_at (40 / 100))))"
    by (simp add: one_open_at_def)
  have l: "map_of (positions (one_open_at (40 / 100))) ''m1'' = Some ?pos"
    by (simp add: one_open_at_def)
  have st: "exit_stage ?pos = 0 \<and> EXIT_1_THRESHOLD \<le> current_yes ?pos"
    "exit_stage ?pos = 0 \<and> EXIT_2_THRESHOLD \<le> current_yes ?pos"
    by (simp_all add: held_def EXIT_1_THRESHOLD_def EXIT_2_THRESHOLD_def)
  have h1: "halve ?pos 1 = held ''m1'' ''miami'' (25 / 100) (40 / 100) 5 1"
    by (simp add: halve_def held_def)
  have h2: "halve (halve ?pos 1) 2 = held ''m1'' ''miami'' (25 / 100) (40 / 100) (5 / 2) 2"
    by (simp add: halve_def held_def)
  from exits_one_stage_per_call [OF d] obtain s' s'' where
    r: "check_progressive_exits (one_open_at (40 / 100)) = Inr s'"
      "check_progressive_exits s' = Inr s''"
    and each: "\<forall>cid pos. map_of (positions (one_open_at (40 / 100))) cid = Some pos \<longrightarrow>
            (exit_stage pos = 0 \<and> EXIT_1_THRESHOLD \<le> current_yes pos
               \<longrightarrow> map_of (positions s') cid = Some (halve pos 1))
          \<and> (exit_stage pos = 1 \<and> EXIT_2_THRESHOLD \<le> current_yes pos
               \<longrightarrow> map_of (positions s') cid = Some (halve pos 2))
          \<and> (exit_stage pos = 2 \<and> EXIT_3_THRESHOLD \<le> current_yes pos
               \<longrightarrow> map_of (positions s') cid = None)
          \<and> (\<not> due pos \<longrightarrow> map_of (positions s') cid = Some pos)
          \<and> (exit_stage pos = 0 \<and> EXIT_2_THRESHOLD \<le> current_yes pos
               \<longrightarrow> map_of (positions s'') cid = Some (halve (halve pos 1) 2))
          \<and> (exit_stage pos = 1 \<and> EXIT_3_THRESHOLD \<le> current_yes pos
               \<longrightarrow> map_of (positions s'') cid = None)
          \<and> (\<not> two_ahead pos \<longrightarrow> map_of (positions s'') cid = map_of (positions s') cid)"
    by (elim exE conjE)
  note here = each [rule_format, OF l]
  from here [THEN conjunct1, THEN mp, OF st(1)]
  have a: "map_of (positions s') ''m1'' = Some (held ''m1'' ''miami'' (25 / 100) (40 / 100) 5 1)"
    unfolding h1 .
  from here [THEN conjunct2, THEN conjunct2, THEN conjunct2, THEN conjunct2, THEN conjunct1,
      THEN mp, OF st(2)]
  have b: "map_of (positions s'') ''m1''
      = Some (held ''m1'' ''miami'' (25 / 100) (40 / 100) (5 / 2) 2)"
    unfolding h2 .
  from r a b have two: "\<exists>s' s''. check_progressive_exits (one_open_at (40 / 100)) = Inr s'
          \<and> check_progressive_exits s' = Inr s''
          \<and> map_of (positions s') ''m1'' = Some (held ''m1'' ''miami'' (25 / 100) (40 / 100) 5 1)
          \<and> map_of (positions s'') ''m1''
              = Some (held ''m1'' ''miami'' (25 / 100) (40 / 100) (5 / 2) 2)"
    by (intro exI [of _ s'] exI [of _ s''] conjI)
  have d1: "distinct (map fst (positions one_open))" by (simp add: one_open_def)
  have nd: "\<forall>(cid, pos) \<in> set (positions one_open). \<not> due pos"
    by (simp add: one_open_def held_def due_def EXIT_1_THRESHOLD_def)
  from exits_one_stage_per_call [OF d1] obtain t' where
    t: "check_progressive_exits one_open = Inr t'"
    and idle: "(\<forall>(cid, pos) \<in> set (positions one_open). \<not> due pos) \<longrightarrow> t' = one_open"
    by (elim exE conjE)
  from idle nd have "t' = one_open" by (rule mp)
  with t have c: "check_progressive_exits one_open = Inr one_open" by simp
  from nd have nd': "list_all (\<lambda>(cid, pos). \<not> due pos) (positions one_open)"
    by (simp add: list_all_iff)
  from d l two d1 nd' c show ?thesis by (intro conjI)
qed

subsection \<open>Capital conservation\<close>

lemma update_absent: "k \<notin> fst ` set al \<Longrightarrow> AList.update k v al = al @ [(k, v)]"
  by (induction al) auto

lemma sum_list_update:
  fixes g :: "'a \<times> 'b \<Rightarrow> real"
  shows "distinct (map fst al) \<Longrightarrow> map_of al k = Some v \<Longrightarrow>
     sum_list (map g (AList.update k v' al)) = sum_list (map g al) - g (k, v) + g (k, v')"
proof (induction al)
  case Nil
  then show ?case by simp
next
  case (Cons e al)
  obtain k0 v0 where e: "e = (k0, v0)" by (cases e) auto
  show ?case
  proof (cases "k0 = k")
    case True
    with Cons.prems e show ?thesis by simp
  next
    case False
    with Cons e show ?thesis by simp
  qed
qed

lemma sum_list_delete:
  fixes g :: "'a \<times> 'b \<Rightarrow> real"
  shows "distinct (map fst al) \<Longrightarrow> map_of al k = Some v \<Longrightarrow>
     sum_list (map g (AList.delete k al)) = sum_list (map g al) - g (k, v)"
proof (induction al)
  case Nil
  then show ?case by simp
next
  case (Cons e al)
  obtain k0 v0 where e: "e = (k0, v0)" by (cases e) auto
  show ?case
  proof (cases "k0 = k")
    case True
    with Cons.prems e have "k \<notin> fst ` set al" by auto
    with True Cons.prems e show ?thesis by simp
  next
    case False
    with Cons e show ?thesis by simp
  qed
qed

lemma py_round_error: "\<bar>py_round x 2 - x\<bar> \<le> 1 / 200"
proof -
  define y where "y = x * 10 ^ 2"
  define f where "f = \<lfloor>y\<rfloor>"
  have b: "of_int f \<le> y" "y < of_int f + 1"
    by (simp_all add: f_def)
  have x: "x = y / 100" by (simp add: y_def)
  have r: "py_round x 2
      = of_int (if y - of_int f < 1 / 2 then f else if 1 / 2 < y - of_int f then f + 1
                 else if even f then f else f + 1) / 100"
    by (simp add: py_round_def Let_def y_def f_def)
  have "\<bar>of_int (if y - of_int f < 1 / 2 then f else if 1 / 2 < y - of_int f then f + 1
                 else if even f then f else f + 1) / 100 - y / 100\<bar> \<le> 1 / 200"
    using b by (auto simp: abs_le_iff field_simps)
  then show ?thesis unfolding r by (subst x)
qed

lemma ledger_inv_fresh: "ledger_inv (AutoPortfolio c)"
  by (simp add: ledger_inv_def allocated_sum_def realized_sum_def partial_count_def
      AutoPortfolio_def)

lemma ledger_inv_open:
  assumes "ledger_inv s" and "condition_id op \<notin> fst ` set (positions s)"
    and "open_position s op amount = Inr s'"
  shows "ledger_inv s'"
proof -
  from assms(3) have nz: "yes_price op \<noteq> 0"
    by (auto simp: open_position_def split: if_splits)
  let ?pos = "\<lparr>opp = op, entry_yes = yes_price op, current_yes = yes_price op,
                allocated = amount, tokens = amount / yes_price op,
                max_gain = amount / yes_price op * 1 - amount,
                exit_stage = 0, status = OPEN, pnl = 0, resolution = Unresolved\<rparr>"
  from assms(3) nz assms(2)
  have s': "s' = s\<lparr>positions := positions s @ [(condition_id op, ?pos)],
                    capital_disponible := capital_disponible s - amount\<rparr>"
    by (simp add: open_position_def Let_def update_absent)
  from assms(1,2) show ?thesis
    unfolding s'
    by (simp add: ledger_inv_def allocated_sum_def realized_sum_def partial_count_def)
qed

lemma ledger_inv_partial:
  assumes "ledger_inv s" and "partial_exit s cid fraction new_stage label = Inr s'"
  shows "ledger_inv s'"
proof -
  from assms(2) obtain pos where pos: "map_of (positions s) cid = Some pos"
    by (cases "map_of (positions s) cid") (auto simp: partial_exit_def)
  from assms(1) have d: "distinct (map fst (positions s))"
    and bal: "capital_disponible s + allocated_sum s = capital_total s"
    and bnd: "\<bar>capital_total s - (capital_inicial s + realized_sum s)\<bar>
                \<le> real (partial_count s) / 200"
    by (simp_all add: ledger_inv_def)
  let ?pos' = "pos\<lparr>tokens := tokens pos * (1 - fraction),
                     allocated := allocated pos * (1 - fraction),
                     max_gain := max_gain pos * (1 - fraction),
                     exit_stage := new_stage\<rparr>"
  define r where "r = tokens pos * fraction * current_yes pos - allocated pos * fraction"
  have s': "s' = s\<lparr>positions := AList.update cid ?pos' (positions s),
                    capital_disponible := capital_disponible s + (allocated pos * fraction + r),
                    capital_total := capital_total s + r,
                    closed_positions := closed_positions s @
                      [PartialExit
                        \<lparr>pr_question = question (opp pos), pr_city = city (opp pos),
                         pr_condition_id = cid, pr_entry_yes = entry_yes pos,
                         pr_allocated = py_round (allocated pos * fraction) 2,
                         pr_pnl = py_round r 2,
                         pr_status = label,
                         pr_resolution =
                           PartialSale label (py_int (fraction * 100)) (current_yes pos)\<rparr>]\<rparr>"
    using assms(2) unfolding partial_exit_def pos Let_def r_def
    by (simp only: option.case sum.inject)
  have p': "positions s' = AList.update cid ?pos' (positions s)"
    and cd: "capital_disponible s' = capital_disponible s + (allocated pos * fraction + r)"
    and ct: "capital_total s' = capital_total s + r"
    and ci: "capital_inicial s' = capital_inicial s"
    and rs: "realized_sum s' = realized_sum s + py_round r 2"
    and pc: "partial_count s' = partial_count s + 1"
    unfolding s' by (simp_all add: realized_sum_def partial_count_def)
  have al: "allocated_sum s' = allocated_sum s - allocated pos * fraction"
    unfolding allocated_sum_def p'
    by (simp add: sum_list_update [OF d pos] algebra_simps)
  have d': "distinct (map fst (positions s'))"
    unfolding p' using d by (simp add: distinct_update)
  have bal': "capital_disponible s' + allocated_sum s' = capital_total s'"
    using bal by (simp add: cd ct al)
  have bnd': "\<bar>capital_total s' - (capital_inicial s' + realized_sum s')\<bar>
                \<le> real (partial_count s') / 200"
  proof -
    have "capital_total s' - (capital_inicial s' + realized_sum s')
          = (capital_total s - (capital_inicial s + realized_sum s)) - (py_round r 2 - r)"
      by (simp add: ct ci rs)
    then have "\<bar>capital_total s' - (capital_inicial s' + realized_sum s')\<bar>
          \<le> \<bar>capital_total s - (capital_inicial s + realized_sum s)\<bar> + \<bar>py_round r 2 - r\<bar>"
      by simp
    also have "\<dots> \<le> real (partial_count s) / 200 + 1 / 200"
      using bnd py_round_error [of r] by (rule add_mono)
    also have "\<dots> = real (partial_count s') / 200"
      by (simp add: pc add_divide_distrib)
    finally show ?thesis .
  qed
  from d' bal' bnd' show ?thesis by (simp add: ledger_inv_def)
qed

lemma ledger_inv_close:
  assumes "ledger_inv s"
  shows "ledger_inv (close_position s cid st pl res)"
proof (cases "map_of (positions s) cid")
  case None
  with assms show ?thesis by (simp add: close_position_def)
next
  case (Some pos)
  from assms have d: "distinct (map fst (positions s))"
    and bal: "capital_disponible s + allocated_sum s = capital_total s"
    and bnd: "\<bar>capital_total s - (capital_inicial s + realized_sum s)\<bar>
                \<le> real (partial_count s) / 200"
    by (simp_all add: ledger_inv_def)
  let ?s' = "close_position s cid st pl res"
  from Some
  have p': "positions ?s' = AList.delete cid (positions s)"
    and cd: "capital_disponible ?s' = capital_disponible s + (allocated pos + pl)"
    and ct: "capital_total ?s' = capital_total s + pl"
    and ci: "capital_inicial ?s' = capital_inicial s"
    and rs: "realized_sum ?s' = realized_sum s + pl"
    and pc: "partial_count ?s' = partial_count s"
    by (simp_all add: close_position_def Let_def realized_sum_def partial_count_def)
  have al: "allocated_sum ?s' = allocated_sum s - allocated pos"
    unfolding allocated_sum_def p' by (simp add: sum_list_delete [OF d Some])
  have "distinct (map fst (positions ?s'))"
    unfolding p' using d by (simp add: distinct_delete)
  moreover from bal have "capital_disponible ?s' + allocated_sum ?s' = capital_total ?s'"
    by (simp add: cd ct al)
  moreover have "\<bar>capital_total ?s' - (capital_inicial ?s' + realized_sum ?s')\<bar>
                \<le> real (partial_count ?s') / 200"
  proof -
    have "capital_total ?s' - (capital_inicial ?s' + realized_sum ?s')
          = capital_total s - (capital_inicial s + realized_sum s)"
      unfolding ct ci rs by simp
    with bnd show ?thesis unfolding pc by (simp only:)
  qed
  ultimately show ?thesis by (simp add: ledger_inv_def)
qed

lemma ledger_inv_close_all: "ledger_inv s \<Longrightarrow> ledger_inv (close_all s tc)"
proof (induction tc arbitrary: s)
  case Nil
  then show ?case by simp
next
  case (Cons e tc)
  obtain c st pl res where e: "e = (c, st, pl, res)" by (cases e) auto
  from Cons.prems have "ledger_inv (close_position s c st pl res)" by (rule ledger_inv_close)
  then have "ledger_inv (close_all (close_position s c st pl res) tc)" by (rule Cons.IH)
  with e show ?case by simp
qed

lemma ledger_inv_price:
  assumes "ledger_inv s" and "map_of (positions s) cid = Some pos"
  shows "ledger_inv (s\<lparr>positions := AList.update cid (pos\<lparr>current_yes := y\<rparr>) (positions s)\<rparr>)"
proof -
  from assms(1) have d: "distinct (map fst (positions s))" by (simp add: ledger_inv_def)
  have "allocated_sum (s\<lparr>positions := AList.update cid (pos\<lparr>current_yes := y\<rparr>) (positions s)\<rparr>)
        = allocated_sum s"
    by (simp add: allocated_sum_def sum_list_update [OF d assms(2)])
  with assms(1) d show ?thesis
    by (simp add: ledger_inv_def distinct_update realized_sum_def partial_count_def)
qed

lemma ledger_inv_collect:
  "ledger_inv s \<Longrightarrow> ledger_inv (fst (collect_closings s pm tc))"
proof (induction pm arbitrary: s tc)
  case Nil
  then show ?case by simp
next
  case (Cons e pm)
  obtain c y n where e: "e = (c, y, n)" by (cases e) auto
  show ?case
  proof (cases "map_of (positions s) c")
    case None
    with Cons e show ?thesis by (simp add: collect_closings_Cons)
  next
    case (Some pos0)
    from Cons.prems Some
    have "ledger_inv (s\<lparr>positions := AList.update c (pos0\<lparr>current_yes := y\<rparr>) (positions s)\<rparr>)"
      by (rule ledger_inv_price)
    from Cons.IH [OF this] Some e show ?thesis by (simp add: collect_closings_Cons)
  qed
qed

lemma ledger_inv_prices:
  assumes "ledger_inv s"
  shows "ledger_inv (apply_price_updates s pm)"
proof -
  obtain s1 tc where run: "collect_closings s pm [] = (s1, tc)"
    by (cases "collect_closings s pm []") auto
  from ledger_inv_collect [OF assms, of pm "[]"] run have "ledger_inv s1" by simp
  then have "ledger_inv (close_all s1 tc)" by (rule ledger_inv_close_all)
  with run show ?thesis by (simp add: apply_price_updates_def)
qed

lemma ledger_inv_exits_loop:
  "ledger_inv s \<Longrightarrow> exits_loop s items = Inr s' \<Longrightarrow> ledger_inv s'"
proof (induction items arbitrary: s)
  case Nil
  then show ?case by simp
next
  case (Cons e items)
  obtain cid pos where e: "e = (cid, pos)" by (cases e) auto
  consider (one) "exit_stage pos = 0 \<and> EXIT_1_THRESHOLD \<le> current_yes pos"
    | (two) "exit_stage pos = 1 \<and> EXIT_2_THRESHOLD \<le> current_yes pos"
    | (three) "exit_stage pos = 2 \<and> EXIT_3_THRESHOLD \<le> current_yes pos"
    | (none) "\<not> due pos"
    unfolding due_def by blast
  then show ?case
  proof cases
    case one
    with Cons.prems(2) e obtain s1 where
      p: "partial_exit s cid (1 / 2) 1 PARTIAL_1 = Inr s1" and r: "exits_loop s1 items = Inr s'"
      by (cases "partial_exit s cid (1 / 2) 1 PARTIAL_1") (auto simp: Let_def)
    from ledger_inv_partial [OF Cons.prems(1) p] r show ?thesis by (rule Cons.IH)
  next
    case two
    with Cons.prems(2) e obtain s1 where
      p: "partial_exit s cid (1 / 2) 2 PARTIAL_2 = Inr s1" and r: "exits_loop s1 items = Inr s'"
      by (cases "partial_exit s cid (1 / 2) 2 PARTIAL_2") (auto simp: Let_def)
    from ledger_inv_partial [OF Cons.prems(1) p] r show ?thesis by (rule Cons.IH)
  next
    case three
    with Cons.prems(2) e
    have r: "exits_loop (close_position s cid WON (tokens pos * current_yes pos - allocated pos)
                 (Tramo3 (current_yes pos))) items = Inr s'"
      by (auto simp: Let_def)
    from ledger_inv_close [OF Cons.prems(1)] r show ?thesis by (rule Cons.IH)
  next
    case none
    with Cons.prems(2) e have "exits_loop s items = Inr s'"
      by (auto simp: due_def Let_def)
    with Cons.prems(1) show ?thesis by (rule Cons.IH)
  qed
qed

lemma ledger_inv_exec:
  assumes "ledger_inv s" and "fresh_opens s (c # cs)"
  shows "ledger_inv (exec_op s c)"
proof (cases c)
  case (OpOpen op amount)
  show ?thesis
  proof (cases "open_position s op amount")
    case (Inl e)
    with OpOpen assms(1) show ?thesis by (simp add: exec_op_def)
  next
    case (Inr s')
    from assms(2) OpOpen have "condition_id op \<notin> fst ` set (positions s)" by simp
    from ledger_inv_open [OF assms(1) this Inr] Inr OpOpen show ?thesis
      by (simp add: exec_op_def)
  qed
next
  case (OpPartial cid fraction new_stage label)
  show ?thesis
  proof (cases "partial_exit s cid fraction new_stage label")
    case (Inl e)
    with OpPartial assms(1) show ?thesis by (simp add: exec_op_def)
  next
    case (Inr s')
    from ledger_inv_partial [OF assms(1) Inr] Inr OpPartial show ?thesis
      by (simp add: exec_op_def)
  qed
next
  case (OpClose cid st pl res)
  with ledger_inv_close [OF assms(1)] show ?thesis by (simp add: exec_op_def)
next
  case (OpPrices pm)
  with ledger_inv_prices [OF assms(1)] show ?thesis by (simp add: exec_op_def)
next
  case OpExits
  show ?thesis
  proof (cases "check_progressive_exits s")
    case (Inl e)
    with OpExits assms(1) show ?thesis by (simp add: exec_op_def)
  next
    case (Inr s')
    then have "exits_loop s (positions s) = Inr s'" by (simp add: check_progressive_exits_def)
    from ledger_inv_exits_loop [OF assms(1) this] Inr OpExits show ?thesis
      by (simp add: exec_op_def)
  qed
qed

lemma ledger_inv_run:
  "ledger_inv s \<Longrightarrow> fresh_opens s cs \<Longrightarrow> ledger_inv (run_ops s (take n cs))"
proof (induction cs arbitrary: s n)
  case Nil
  then show ?case by (simp add: run_ops_def)
next
  case (Cons c cs)
  show ?case
  proof (cases n)
    case 0
    with Cons.prems show ?thesis by (simp add: run_ops_def)
  next
    case (Suc m)
    from Cons.prems have "ledger_inv (exec_op s c)" by (rule ledger_inv_exec)
    moreover from Cons.prems have "fresh_opens (exec_op s c) cs" by simp
    ultimately have "ledger_inv (run_ops (exec_op s c) (take m cs))" by (rule Cons.IH)
    with Suc show ?thesis by (simp add: run_ops_def)
  qed
qed

lemma capital_inicial_close: "capital_inicial (close_position s cid st pl res) = capital_inicial s"
  by (simp add: close_position_def Let_def split: option.split)

lemma capital_inicial_close_all: "capital_inicial (close_all s tc) = capital_inicial s"
proof (induction tc arbitrary: s)
  case Nil
  then show ?case by simp
next
  case (Cons e tc)
  obtain c st pl res where e: "e = (c, st, pl, res)" by (cases e) auto
  with Cons.IH [of "close_position s c st pl res"] show ?case
    by (simp add: capital_inicial_close)
qed

lemma capital_inicial_collect:
  "capital_inicial (fst (collect_closings s pm tc)) = capital_inicial s"
proof (induction pm arbitrary: s tc)
  case Nil
  then show ?case by simp
next
  case (Cons e pm)
  obtain c y n where e: "e = (c, y, n)" by (cases e) auto
  with Cons.IH show ?case by (simp add: collect_closings_Cons split: option.split)
qed

lemma capital_inicial_prices: "capital_inicial (apply_price_updates s pm) = capital_inicial s"
proof -
  obtain s1 tc where run: "collect_closings s pm [] = (s1, tc)"
    by (cases "collect_closings s pm []") auto
  from capital_inicial_collect [of s pm "[]"] run have "capital_inicial s1 = capital_inicial s"
    by simp
  with run show ?thesis by (simp add: apply_price_updates_def capital_inicial_close_all)
qed

lemma capital_inicial_partial:
  "partial_exit s cid fraction new_stage label = Inr s' \<Longrightarrow> capital_inicial s' = capital_inicial s"
  by (auto simp: partial_exit_def Let_def split: option.splits)

lemma capital_inicial_exits_loop:
  "exits_loop s items = Inr s' \<Longrightarrow> capital_inicial s' = capital_inicial s"
proof (induction items arbitrary: s)
  case Nil
  then show ?case by simp
next
  case (Cons e items)
  obtain cid pos where e: "e = (cid, pos)" by (cases e) auto
  from Cons.prems e Cons.IH show ?case
    by (auto simp: Let_def capital_inicial_close dest!: capital_inicial_partial
        split: if_splits sum.splits)
qed

lemma capital_inicial_exec: "capital_inicial (exec_op s c) = capital_inicial s"
proof (cases c)
  case (OpOpen op amount)
  then show ?thesis
    by (auto simp: exec_op_def open_position_def Let_def split: sum.splits if_splits)
next
  case (OpPartial cid fraction new_stage label)
  then show ?thesis
    by (auto simp: exec_op_def dest: capital_inicial_partial split: sum.splits)
next
  case (OpClose cid st pl res)
  then show ?thesis by (simp add: exec_op_def capital_inicial_close)
next
  case (OpPrices pm)
  then show ?thesis by (simp add: exec_op_def capital_inicial_prices)
next
  case OpExits
  then show ?thesis
    by (auto simp: exec_op_def check_progressive_exits_def dest: capital_inicial_exits_loop
        split: sum.splits)
qed

lemma capital_inicial_run: "capital_inicial (run_ops s cs) = capital_inicial s"
  unfolding run_ops_def by (induction cs arbitrary: s) (simp_all add: capital_inicial_exec)


lemma rounded_exit_run:
  "run_ops (AutoPortfolio 100)
      [OpOpen (candidate ''m1'' ''miami'' (25 / 100)) 8,
       OpPrices [(''m1'', 311 / 1000, 689 / 1000)], OpExits]
   = \<lparr>capital_inicial = 100, capital_total = 100976 / 1000,
      capital_disponible = 96976 / 1000,
      positions = [(''m1'', held ''m1'' ''miami'' (25 / 100) (311 / 1000) 4 1)],
      closed_positions =
        [PartialExit
          \<lparr>pr_question = ''Highest temperature?'', pr_city = ''miami'',
           pr_condition_id = ''m1'', pr_entry_yes = 25 / 100, pr_allocated = 4,
           pr_pnl = 98 / 100, pr_status = PARTIAL_1,
           pr_resolution = PartialSale PARTIAL_1 50 (311 / 1000)\<rparr>]\<rparr>"
  by (simp add: run_ops_def exec_op_def open_position_def AutoPortfolio_def candidate_def
      apply_price_updates_def collect_closings_Cons closing_of_def STOP_LOSS_DROP_def
      drop_0311_025 check_progressive_exits_def partial_exit_def EXIT_1_THRESHOLD_def
      held_def py_round_def py_int_def Let_def)

text \<open>
  Claim C1, the claim as stated fails, in two ways. \<open>open_position\<close> twice for the same
  market id, 10 units each on a fresh ledger of 100, replaces the first position: 80 are
  available and 10 allocated, against a total of 100. And a partial exit credits its pnl
  to \<open>capital_total\<close> as computed but stores it in the record rounded to two decimals:
  after opening 8 units at 0.25, a price update to 0.311 and \<open>check_progressive_exits\<close>,
  the total is 100.976, while the initial capital plus the pnl of the records is 100.98.
\<close>

theorem conservation_fails:
  "capital_disponible (run_ops (AutoPortfolio 100)
      [OpOpen (candidate ''m1'' ''miami'' (25 / 100)) 10,
       OpOpen (candidate ''m1'' ''miami'' (25 / 100)) 10]) = 80
   \<and> allocated_sum (run_ops (AutoPortfolio 100)
      [OpOpen (candidate ''m1'' ''miami'' (25 / 100)) 10,
       OpOpen (candidate ''m1'' ''miami'' (25 / 100)) 10]) = 10
   \<and> capital_total (run_ops (AutoPortfolio 100)
      [OpOpen (candidate ''m1'' ''miami'' (25 / 100)) 10,
       OpOpen (candidate ''m1'' ''miami'' (25 / 100)) 10]) = 100
   \<and> \<not> conserved (run_ops (AutoPortfolio 100)
      [OpOpen (candidate ''m1'' ''miami'' (25 / 100)) 10,
       OpOpen (candidate ''m1'' ''miami'' (25 / 100)) 10])
   \<and> fresh_opens (AutoPortfolio 100)
      [OpOpen (candidate ''m1'' ''miami'' (25 / 100)) 8,
       OpPrices [(''m1'', 311 / 1000, 689 / 1000)], OpExits]
   \<and> capital_total (run_ops (AutoPortfolio 100)
      [OpOpen (candidate ''m1'' ''miami'' (25 / 100)) 8,
       OpPrices [(''m1'', 311 / 1000, 689 / 1000)], OpExits]) = 100976 / 1000
   \<and> capital_inicial (run_ops (AutoPortfolio 100)
      [OpOpen (candidate ''m1'' ''miami'' (25 / 100)) 8,
       OpPrices [(''m1'', 311 / 1000, 689 / 1000)], OpExits]) = 100
   \<and> realized_sum (run_ops (AutoPortfolio 100)
      [OpOpen (candidate ''m1'' ''miami'' (25 / 100)) 8,
       OpPrices [(''m1'', 311 / 1000, 689 / 1000)], OpExits]) = 98 / 100
   \<and> \<not> conserved (run_ops (AutoPortfolio 100)
      [OpOpen (candidate ''m1'' ''miami'' (25 / 100)) 8,
       OpPrices [(''m1'', 311 / 1000, 689 / 1000)], OpExits])"
proof -
  have dup: "capital_disponible (run_ops (AutoPortfolio 100)
      [OpOpen (candidate ''m1'' ''miami'' (25 / 100)) 10,
       OpOpen (candidate ''m1'' ''miami'' (25 / 100)) 10]) = 80
   \<and> allocated_sum (run_ops (AutoPortfolio 100)
      [OpOpen (candidate ''m1'' ''miami'' (25 / 100)) 10,
       OpOpen (candidate ''m1'' ''miami'' (25 / 100)) 10]) = 10
   \<and> capital_total (run_ops (AutoPortfolio 100)
      [OpOpen (candidate ''m1'' ''miami'' (25 / 100)) 10,
       OpOpen (candidate ''m1'' ''miami'' (25 / 100)) 10]) = 100
   \<and> \<not> conserved (run_ops (AutoPortfolio 100)
      [OpOpen (candidate ''m1'' ''miami'' (25 / 100)) 10,
       OpOpen (candidate ''m1'' ''miami'' (25 / 100)) 10])"
    by (simp add: run_ops_def exec_op_def open_position_def AutoPortfolio_def candidate_def
        allocated_sum_def conserved_def Let_def)
  have f: "fresh_opens (AutoPortfolio 100)
      [OpOpen (candidate ''m1'' ''miami'' (25 / 100)) 8,
       OpPrices [(''m1'', 311 / 1000, 689 / 1000)], OpExits]"
    by (simp add: AutoPortfolio_def)
  have r: "capital_total (run_ops (AutoPortfolio 100)
      [OpOpen (candidate ''m1'' ''miami'' (25 / 100)) 8,
       OpPrices [(''m1'', 311 / 1000, 689 / 1000)], OpExits]) = 100976 / 1000
   \<and> capital_inicial (run_ops (AutoPortfolio 100)
      [OpOpen (candidate ''m1'' ''miami'' (25 / 100)) 8,
       OpPrices [(''m1'', 311 / 1000, 689 / 1000)], OpExits]) = 100
   \<and> realized_sum (run_ops (AutoPortfolio 100)
      [OpOpen (candidate ''m1'' ''miami'' (25 / 100)) 8,
       OpPrices [(''m1'', 311 / 1000, 689 / 1000)], OpExits]) = 98 / 100
   \<and> \<not> conserved (run_ops (AutoPortfolio 100)
      [OpOpen (candidate ''m1'' ''miami'' (25 / 100)) 8,
       OpPrices [(''m1'', 311 / 1000, 689 / 1000)], OpExits])"
    unfolding rounded_exit_run by (simp add: realized_sum_def conserved_def)
  from dup f r show ?thesis by simp
qed


text \<open>
  Claim C1, amended. From a fresh ledger with initial capital \<open>c\<close>, after every prefix of a
  sequence of \<open>open_position\<close>, \<open>partial_exit\<close>, \<open>close_position\<close>,
  \<open>apply_price_updates\<close> and \<open>check_progressive_exits\<close> calls in which \<open>open_position\<close>
  is only called for a market id that is not open at that moment, and with the arithmetic
  read as exact: \<open>capital_disponible\<close> plus the allocated capital of the open positions is
  \<open>capital_total\<close>; \<open>capital_inicial\<close> is \<open>c\<close>; and \<open>capital_total\<close> differs from
  \<open>capital_inicial\<close> plus the pnl of the records of the history by at most 0.005 for
  every partial-exit record, so the two are equal as long as there is no such record. The
  difference comes from the records only: a partial exit adds
  \<open>tokens * fraction * current_yes - allocated * fraction\<close> to \<open>capital_total\<close> and
  stores that amount rounded to two decimals, a closing adds the pnl it is given and stores
  it as it is. A call of \<open>open_position\<close> that returns leaves \<open>capital_total\<close> as it is,
  takes \<open>amount\<close> from \<open>capital_disponible\<close> and stores a position with
  \<open>allocated = amount\<close>.
\<close>

theorem capital_conservation:
  assumes "fresh_opens (AutoPortfolio c) ops"
  shows "capital_disponible (run_ops (AutoPortfolio c) (take n ops))
           + allocated_sum (run_ops (AutoPortfolio c) (take n ops))
         = capital_total (run_ops (AutoPortfolio c) (take n ops))
       \<and> capital_inicial (run_ops (AutoPortfolio c) (take n ops)) = c
       \<and> \<bar>capital_total (run_ops (AutoPortfolio c) (take n ops))
            - (c + realized_sum (run_ops (AutoPortfolio c) (take n ops)))\<bar>
           \<le> real (partial_count (run_ops (AutoPortfolio c) (take n ops))) / 200
       \<and> (partial_count (run_ops (AutoPortfolio c) (take n ops)) = 0 \<longrightarrow>
            capital_total (run_ops (AutoPortfolio c) (take n ops))
            = c + realized_sum (run_ops (AutoPortfolio c) (take n ops)))
       \<and> (open_position s op amount = Inr s' \<longrightarrow>
            capital_total s' = capital_total s
            \<and> capital_disponible s' = capital_disponible s - amount
            \<and> (\<exists>pos. map_of (positions s') (condition_id op) = Some pos
                  \<and> allocated pos = amount))
       \<and> (partial_exit s cid fraction new_stage label = Inr s' \<longrightarrow>
            (\<exists>pos r. map_of (positions s) cid = Some pos
               \<and> capital_total s' = capital_total s
                    + (tokens pos * fraction * current_yes pos - allocated pos * fraction)
               \<and> closed_positions s' = closed_positions s @ [PartialExit r]
               \<and> pr_pnl r
                    = py_round (tokens pos * fraction * current_yes pos
                                - allocated pos * fraction) 2))
       \<and> (map_of (positions s) cid = Some pos0 \<longrightarrow>
            capital_total (close_position s cid st pl res) = capital_total s + pl
            \<and> closed_positions (close_position s cid st pl res)
                = closed_positions s @ [FullClose (pos0\<lparr>status := st, pnl := pl, resolution := res\<rparr>)])"
proof -
  let ?s = "run_ops (AutoPortfolio c) (take n ops)"
  from ledger_inv_run [OF ledger_inv_fresh assms, of n]
  have inv: "ledger_inv ?s" .
  have b: "capital_inicial ?s = c"
    by (simp add: capital_inicial_run AutoPortfolio_def)
  from inv have a: "capital_disponible ?s + allocated_sum ?s = capital_total ?s"
    by (simp add: ledger_inv_def)
  from inv b have bnd: "\<bar>capital_total ?s - (c + realized_sum ?s)\<bar>
      \<le> real (partial_count ?s) / 200"
    by (simp add: ledger_inv_def)
  have ex: "partial_count ?s = 0 \<longrightarrow> capital_total ?s = c + realized_sum ?s"
  proof
    assume "partial_count ?s = 0"
    with bnd have "\<bar>capital_total ?s - (c + realized_sum ?s)\<bar> \<le> 0" by simp
    then show "capital_total ?s = c + realized_sum ?s" by simp
  qed
  have o: "open_position s op amount = Inr s' \<longrightarrow>
            capital_total s' = capital_total s
            \<and> capital_disponible s' = capital_disponible s - amount
            \<and> (\<exists>pos. map_of (positions s') (condition_id op) = Some pos
                  \<and> allocated pos = amount)"
    by (auto simp: open_position_def Let_def update_conv' split: if_splits)
  have p: "partial_exit s cid fraction new_stage label = Inr s' \<longrightarrow>
            (\<exists>pos r. map_of (positions s) cid = Some pos
               \<and> capital_total s' = capital_total s
                    + (tokens pos * fraction * current_yes pos - allocated pos * fraction)
               \<and> closed_positions s' = closed_positions s @ [PartialExit r]
               \<and> pr_pnl r
                    = py_round (tokens pos * fraction * current_yes pos
                                - allocated pos * fraction) 2)"
    by (auto simp: partial_exit_def Let_def split: option.splits)
  have cl: "map_of (positions s) cid = Some pos0 \<longrightarrow>
            capital_total (close_position s cid st pl res) = capital_total s + pl
            \<and> closed_positions (close_position s cid st pl res)
                = closed_positions s @ [FullClose (pos0\<lparr>status := st, pnl := pl, resolution := res\<rparr>)]"
    by (simp add: close_position_def Let_def)
  from a b bnd ex o p cl show ?thesis by (intro conjI)
qed

theorem capital_conservation_witness:
  "fresh_opens (AutoPortfolio 100)
     [OpOpen (candidate ''m1'' ''miami'' (25 / 100)) 8,
       OpPrices [(''m1'', 311 / 1000, 689 / 1000)], OpExits]
   \<and> capital_disponible (run_ops (AutoPortfolio 100)
       [OpOpen (candidate ''m1'' ''miami'' (25 / 100)) 8,
       OpPrices [(''m1'', 311 / 1000, 689 / 1000)], OpExits])
     + allocated_sum (run_ops (AutoPortfolio 100)
       [OpOpen (candidate ''m1'' ''miami'' (25 / 100)) 8,
       OpPrices [(''m1'', 311 / 1000, 689 / 1000)], OpExits])
     = capital_total (run_ops (AutoPortfolio 100)
       [OpOpen (candidate ''m1'' ''miami'' (25 / 100)) 8,
       OpPrices [(''m1'', 311 / 1000, 689 / 1000)], OpExits])
   \<and> partial_count (run_ops (AutoPortfolio 100)
       [OpOpen (candidate ''m1'' ''miami'' (25 / 100)) 8,
       OpPrices [(''m1'', 311 / 1000, 689 / 1000)], OpExits]) = 1
   \<and> \<bar>capital_total (run_ops (AutoPortfolio 100)
       [OpOpen (candidate ''m1'' ''miami'' (25 / 100)) 8,
       OpPrices [(''m1'', 311 / 1000, 689 / 1000)], OpExits])
      - (100 + realized_sum (run_ops (AutoPortfolio 100)
       [OpOpen (candidate ''m1'' ''miami'' (25 / 100)) 8,
       OpPrices [(''m1'', 311 / 1000, 689 / 1000)], OpExits]))\<bar> \<le> 1 / 200
   \<and> open_position (AutoPortfolio 100) (candidate ''m1'' ''miami'' (25 / 100)) 10 = Inr one_open
   \<and> capital_total one_open = capital_total (AutoPortfolio 100)
   \<and> capital_disponible one_open = capital_disponible (AutoPortfolio 100) - 10"
proof -
  let ?ops = "[OpOpen (candidate ''m1'' ''miami'' (25 / 100)) 8,
       OpPrices [(''m1'', 311 / 1000, 689 / 1000)], OpExits]"
  have f: "fresh_opens (AutoPortfolio 100) ?ops"
    by (simp add: AutoPortfolio_def)
  have r: "open_position (AutoPortfolio 100) (candidate ''m1'' ''miami'' (25 / 100)) 10
           = Inr one_open"
    by (rule one_open_reached)
  have pc: "partial_count (run_ops (AutoPortfolio 100) ?ops) = 1"
    unfolding rounded_exit_run by (simp add: partial_count_def)
  note t = capital_conservation [OF f, of 3 "AutoPortfolio 100"
      "candidate ''m1'' ''miami'' (25 / 100)" 10 one_open]
  from t [THEN conjunct1]
  have a: "capital_disponible (run_ops (AutoPortfolio 100) ?ops)
     + allocated_sum (run_ops (AutoPortfolio 100) ?ops)
     = capital_total (run_ops (AutoPortfolio 100) ?ops)"
    by simp
  from t [THEN conjunct2, THEN conjunct2, THEN conjunct1]
  have b0: "\<bar>capital_total (run_ops (AutoPortfolio 100) ?ops)
      - (100 + realized_sum (run_ops (AutoPortfolio 100) ?ops))\<bar>
      \<le> real (partial_count (run_ops (AutoPortfolio 100) ?ops)) / 200"
    by simp
  have b: "\<bar>capital_total (run_ops (AutoPortfolio 100) ?ops)
      - (100 + realized_sum (run_ops (AutoPortfolio 100) ?ops))\<bar> \<le> 1 / 200"
    using b0 unfolding pc by simp
  from t [THEN conjunct2, THEN conjunct2, THEN conjunct2, THEN conjunct2, THEN conjunct1] r
  have "capital_total one_open = capital_total (AutoPortfolio 100)
        \<and> capital_disponible one_open = capital_disponible (AutoPortfolio 100) - 10
        \<and> (\<exists>pos. map_of (positions one_open)
                    (condition_id (candidate ''m1'' ''miami'' (25 / 100))) = Some pos
              \<and> allocated pos = 10)"
    by (rule mp)
  then have o: "capital_total one_open = capital_total (AutoPortfolio 100)"
    "capital_disponible one_open = capital_disponible (AutoPortfolio 100) - 10"
    by (rule conjunct1, elim conjE)
  from f a pc b r o show ?thesis by (intro conjI)
qed

subsection \<open>The entry gate\<close>

lemma has_uptrend_count:
  "has_uptrend tr cid \<Longrightarrow> 4 \<le> observation_count tr cid"
  by (auto simp: has_uptrend_def observation_count_def TREND_MIN_OBSERVATIONS_def Let_def
      split: if_splits)

lemma observation_count_record:
  "observation_count (tracker_record tr ts cid p) cid = min 50 (observation_count tr cid + 1)"
  by (simp add: observation_count_def tracker_record_def history_of_def Let_def
      MAX_HISTORY_PER_MARKET_def py_last_n_def)

lemma scan_quote_some:
  "fst (scan_quote clob st op) = Some (rt_yes, rt_no) \<Longrightarrow>
     clob_ok st \<and> truthy (yes_token_id op)
     \<and> clob (the (yes_token_id op)) = Some (rt_yes, rt_no) \<and> rt_yes \<le> 1 / 2"
  by (auto simp: scan_quote_def split: if_splits option.splits)

lemma scan_step_none:
  "fst (scan_quote clob st op) = None \<Longrightarrow>
     clob_verified (scan_step clob st (ts, op)) = clob_verified st
     \<and> trend (scan_step clob st (ts, op)) = trend st"
  by (cases "scan_quote clob st op") (auto simp: scan_step_def)

lemma scan_step_some:
  assumes "fst (scan_quote clob st op) = Some (rt_yes, rt_no)"
  shows "trend (scan_step clob st (ts, op)) = tracker_record (trend st) ts (condition_id op) rt_yes
     \<and> clob_verified (scan_step clob st (ts, op))
        = (if 22 / 100 \<le> rt_yes \<and> rt_yes \<le> 27 / 100
              \<and> (has_uptrend (tracker_record (trend st) ts (condition_id op) rt_yes)
                    (condition_id op)
                  \<or> 4 \<le> observation_count
                          (tracker_record (trend st) ts (condition_id op) rt_yes)
                          (condition_id op))
           then clob_verified st
                @ [op\<lparr>yes_price := rt_yes,
                      no_price := (if rt_no = 0 then py_round (1 - rt_yes) 4 else rt_no)\<rparr>]
           else clob_verified st)"
proof -
  obtain fails ok where q: "scan_quote clob st op = (Some (rt_yes, rt_no), fails, ok)"
    using assms by (cases "scan_quote clob st op") auto
  show ?thesis
    by (simp add: scan_step_def q Let_def ENTRY_YES_MIN_def ENTRY_YES_MAX_def
        TREND_MIN_OBSERVATIONS_def)
qed

lemma falling_example:
  "clob_verified (scan_candidates quote_25 falling_history
      [(4, candidate ''m1'' ''miami'' (30 / 100))])
     = [candidate ''m1'' ''miami'' (25 / 100)]
   \<and> \<not> has_uptrend (trend (scan_candidates quote_25 falling_history
      [(4, candidate ''m1'' ''miami'' (30 / 100))])) ''m1''"
  by (simp add: scan_candidates_def MAX_CLOB_VERIFY_def scan_step_def scan_quote_def
      quote_25_def falling_history_def candidate_def tracker_record_def history_of_def
      observation_count_def has_uptrend_def MAX_HISTORY_PER_MARKET_def py_last_n_def
      TREND_MIN_OBSERVATIONS_def ENTRY_YES_MIN_def ENTRY_YES_MAX_def Let_def
      uptrend_loop_four)

text \<open>
  Claim C9. A candidate of the scan loop is added to \<open>clob_verified\<close> exactly when the
  primary source gave a yes price for it in this iteration (at most 0.50, else it is
  discarded), that price lies in [0.22, 0.27], and the market has an uptrend or at least 4
  recorded observations. An uptrend needs 4 observations, so the second condition is that
  4 observations are recorded; each quote is recorded whatever its price (up to the 50
  kept). A market with the falling prices 0.40, 0.35, 0.30 is queued at the quote 0.25.
\<close>

theorem entry_gate:
  "(fst (scan_quote clob st op) = None \<longrightarrow>
      clob_verified (scan_step clob st (ts, op)) = clob_verified st)
   \<and> (fst (scan_quote clob st op) = Some (rt_yes, rt_no) \<longrightarrow>
        clob (the (yes_token_id op)) = Some (rt_yes, rt_no)
        \<and> trend (scan_step clob st (ts, op))
            = tracker_record (trend st) ts (condition_id op) rt_yes
        \<and> clob_verified (scan_step clob st (ts, op))
            = (if 22 / 100 \<le> rt_yes \<and> rt_yes \<le> 27 / 100
                  \<and> (has_uptrend (trend (scan_step clob st (ts, op))) (condition_id op)
                      \<or> 4 \<le> observation_count (trend (scan_step clob st (ts, op)))
                              (condition_id op))
               then clob_verified st
                    @ [op\<lparr>yes_price := rt_yes,
                          no_price := (if rt_no = 0 then py_round (1 - rt_yes) 4 else rt_no)\<rparr>]
               else clob_verified st)
        \<and> (has_uptrend (trend (scan_step clob st (ts, op))) (condition_id op)
              \<or> 4 \<le> observation_count (trend (scan_step clob st (ts, op))) (condition_id op))
            = (4 \<le> observation_count (trend (scan_step clob st (ts, op))) (condition_id op))
        \<and> observation_count (trend (scan_step clob st (ts, op))) (condition_id op)
            = min 50 (observation_count (trend st) (condition_id op) + 1))
   \<and> clob_verified (scan_candidates quote_25 falling_history
          [(4, candidate ''m1'' ''miami'' (30 / 100))])
        = [candidate ''m1'' ''miami'' (25 / 100)]
   \<and> \<not> has_uptrend (trend (scan_candidates quote_25 falling_history
          [(4, candidate ''m1'' ''miami'' (30 / 100))])) ''m1''"
proof -
  let ?st' = "scan_step clob st (ts, op)"
  let ?cid = "condition_id op"
  have none: "fst (scan_quote clob st op) = None \<longrightarrow> clob_verified ?st' = clob_verified st"
    by (simp add: scan_step_none)
  have some: "fst (scan_quote clob st op) = Some (rt_yes, rt_no) \<longrightarrow>
        clob (the (yes_token_id op)) = Some (rt_yes, rt_no)
        \<and> trend ?st' = tracker_record (trend st) ts ?cid rt_yes
        \<and> clob_verified ?st'
            = (if 22 / 100 \<le> rt_yes \<and> rt_yes \<le> 27 / 100
                  \<and> (has_uptrend (trend ?st') ?cid \<or> 4 \<le> observation_count (trend ?st') ?cid)
               then clob_verified st
                    @ [op\<lparr>yes_price := rt_yes,
                          no_price := (if rt_no = 0 then py_round (1 - rt_yes) 4 else rt_no)\<rparr>]
               else clob_verified st)
        \<and> (has_uptrend (trend ?st') ?cid \<or> 4 \<le> observation_count (trend ?st') ?cid)
            = (4 \<le> observation_count (trend ?st') ?cid)
        \<and> observation_count (trend ?st') ?cid
            = min 50 (observation_count (trend st) ?cid + 1)"
  proof
    assume q: "fst (scan_quote clob st op) = Some (rt_yes, rt_no)"
    note step = scan_step_some [OF q, of ts]
    from step have tr: "trend ?st' = tracker_record (trend st) ts ?cid rt_yes" by simp
    from scan_quote_some [OF q]
    have c: "clob (the (yes_token_id op)) = Some (rt_yes, rt_no)" by simp
    from step have v: "clob_verified ?st'
            = (if 22 / 100 \<le> rt_yes \<and> rt_yes \<le> 27 / 100
                  \<and> (has_uptrend (trend ?st') ?cid \<or> 4 \<le> observation_count (trend ?st') ?cid)
               then clob_verified st
                    @ [op\<lparr>yes_price := rt_yes,
                          no_price := (if rt_no = 0 then py_round (1 - rt_yes) 4 else rt_no)\<rparr>]
               else clob_verified st)"
      unfolding tr by (rule conjunct2)
    have u: "(has_uptrend (trend ?st') ?cid \<or> 4 \<le> observation_count (trend ?st') ?cid)
            = (4 \<le> observation_count (trend ?st') ?cid)"
      using has_uptrend_count [of "trend ?st'" ?cid] by blast
    have n: "observation_count (trend ?st') ?cid
            = min 50 (observation_count (trend st) ?cid + 1)"
      unfolding tr by (rule observation_count_record)
    from c tr v u n
    show "clob (the (yes_token_id op)) = Some (rt_yes, rt_no)
        \<and> trend ?st' = tracker_record (trend st) ts ?cid rt_yes
        \<and> clob_verified ?st'
            = (if 22 / 100 \<le> rt_yes \<and> rt_yes \<le> 27 / 100
                  \<and> (has_uptrend (trend ?st') ?cid \<or> 4 \<le> observation_count (trend ?st') ?cid)
               then clob_verified st
                    @ [op\<lparr>yes_price := rt_yes,
                          no_price := (if rt_no = 0 then py_round (1 - rt_yes) 4 else rt_no)\<rparr>]
               else clob_verified st)
        \<and> (has_uptrend (trend ?st') ?cid \<or> 4 \<le> observation_count (trend ?st') ?cid)
            = (4 \<le> observation_count (trend ?st') ?cid)
        \<and> observation_count (trend ?st') ?cid
            = min 50 (observation_count (trend st) ?cid + 1)"
      by (intro conjI)
  qed
  from none some falling_example [THEN conjunct1] falling_example [THEN conjunct2]
  show ?thesis by (intro conjI)
qed

theorem entry_gate_witness:
  "fst (scan_quote quote_25
          \<lparr>trend = falling_history, clob_fails = 0, clob_ok = True, clob_verified = []\<rparr>
          (candidate ''m1'' ''miami'' (30 / 100))) = Some (25 / 100, 75 / 100)
   \<and> clob_verified (scan_step quote_25
          \<lparr>trend = falling_history, clob_fails = 0, clob_ok = True, clob_verified = []\<rparr>
          (4, candidate ''m1'' ''miami'' (30 / 100)))
       = [candidate ''m1'' ''miami'' (25 / 100)]
   \<and> fst (scan_quote quote_25
          \<lparr>trend = falling_history, clob_fails = 2, clob_ok = False, clob_verified = []\<rparr>
          (candidate ''m1'' ''miami'' (30 / 100))) = None
   \<and> clob_verified (scan_step quote_25
          \<lparr>trend = falling_history, clob_fails = 2, clob_ok = False, clob_verified = []\<rparr>
          (4, candidate ''m1'' ''miami'' (30 / 100))) = []"
proof -
  let ?st0 = "\<lparr>trend = falling_history, clob_fails = 0, clob_ok = True, clob_verified = []\<rparr>"
  let ?st1 = "\<lparr>trend = falling_history, clob_fails = 2, clob_ok = False, clob_verified = []\<rparr>"
  let ?op = "candidate ''m1'' ''miami'' (30 / 100)"
  have q: "fst (scan_quote quote_25 ?st0 ?op) = Some (25 / 100, 75 / 100)"
    by (simp add: scan_quote_def quote_25_def candidate_def)
  have cid: "condition_id ?op = ''m1''" by (simp add: candidate_def)
  have three: "observation_count falling_history ''m1'' = 3"
    by (simp add: observation_count_def history_of_def falling_history_def)
  have upd: "?op\<lparr>yes_price := 25 / 100, no_price := 75 / 100\<rparr>
             = candidate ''m1'' ''miami'' (25 / 100)"
    by (simp add: candidate_def)
  note big = entry_gate [of quote_25 ?st0 ?op 4 "25 / 100" "75 / 100",
      THEN conjunct2, THEN conjunct1, THEN mp, OF q]
  note v = big [THEN conjunct2, THEN conjunct2, THEN conjunct1]
  note n = big [THEN conjunct2, THEN conjunct2, THEN conjunct2, THEN conjunct2]
  have n': "observation_count (trend (scan_step quote_25 ?st0 (4, ?op))) ''m1'' = 4"
    using n by (simp add: candidate_def three)
  have a: "clob_verified (scan_step quote_25 ?st0 (4, ?op))
       = [candidate ''m1'' ''miami'' (25 / 100)]"
    using n' v by (simp add: candidate_def)
  have q1: "fst (scan_quote quote_25 ?st1 ?op) = None"
    by (simp add: scan_quote_def)
  from entry_gate [of quote_25 ?st1 ?op 4, THEN conjunct1] q1
  have "clob_verified (scan_step quote_25 ?st1 (4, ?op)) = clob_verified ?st1"
    by (rule mp)
  then have b: "clob_verified (scan_step quote_25 ?st1 (4, ?op)) = []" by simp
  from q a q1 b show ?thesis by (intro conjI)
qed

subsection \<open>The price source arbiter\<close>

lemma two_in_a_row_snoc:
  "two_in_a_row P (h @ [t]) = (two_in_a_row P h \<or> (h \<noteq> [] \<and> P (last h) \<and> P t))"
  by (induction P h rule: two_in_a_row.induct) auto

lemma refresh_loop_Cons:
  "\<exists>s1. snd (refresh_loop clob gamma a s (d # ds))
         = (fst d, fst (snd (refresh_quote clob gamma a d)))
           # snd (refresh_loop clob gamma (snd (snd (refresh_quote clob gamma a d))) s1 ds)"
proof -
  obtain yes_p calls a1 where q: "refresh_quote clob gamma a d = (yes_p, calls, a1)"
    by (cases "refresh_quote clob gamma a d") auto
  define s1 where "s1 =
    (case yes_p of
       None \<Rightarrow> s
     | Some y \<Rightarrow>
         (case map_of (positions s) (fst d) of
            None \<Rightarrow> s
          | Some pos \<Rightarrow>
              s\<lparr>positions := AList.update (fst d) (pos\<lparr>current_yes := y\<rparr>) (positions s)\<rparr>))"
  have "snd (refresh_loop clob gamma a s (d # ds))
        = (fst d, calls) # snd (refresh_loop clob gamma a1 s1 ds)"
    by (simp add: q s1_def Let_def split: prod.splits)
  with q show ?thesis by (intro exI [of _ s1]) simp
qed

lemma cycle_price_loop_Cons:
  "\<exists>pm1. snd (cycle_price_loop clob gamma a pm (d # ds))
         = (fst d, fst (snd (cycle_quote clob gamma a d)))
           # snd (cycle_price_loop clob gamma (snd (snd (cycle_quote clob gamma a d))) pm1 ds)"
proof -
  obtain q calls a1 where c: "cycle_quote clob gamma a d = (q, calls, a1)"
    by (cases "cycle_quote clob gamma a d") auto
  define pm1 where "pm1 =
    (case q of
       (Some yes_p, Some no_p) \<Rightarrow> AList.update (fst d) (yes_p, no_p) pm
     | _ \<Rightarrow> pm)"
  have "snd (cycle_price_loop clob gamma a pm (d # ds))
        = (fst d, calls) # snd (cycle_price_loop clob gamma a1 pm1 ds)"
    by (simp add: c pm1_def Let_def split: prod.splits)
  with c show ?thesis by (intro exI [of _ pm1]) simp
qed

text \<open>The arbiter state of \<open>refresh_prices\<close> after the tokens \<open>h\<close>: demoted exactly when
  two in a row failed, and otherwise the failure count says whether the last one failed.\<close>

lemma refresh_quote_step:
  assumes "primary_ok a = (\<not> two_in_a_row (primary_fails clob) h)"
    and "primary_ok a \<longrightarrow>
           primary_failures a = (if h \<noteq> [] \<and> primary_fails clob (last h) then 1 else 0)"
  shows "fst (snd (refresh_quote clob gamma a (cid, yes_tid, slg)))
           = quote_calls clob (two_in_a_row (primary_fails clob) h) (cid, yes_tid, slg)
       \<and> primary_ok (snd (snd (refresh_quote clob gamma a (cid, yes_tid, slg))))
           = (\<not> two_in_a_row (primary_fails clob) (h @ tokened [(cid, yes_tid, slg)]))
       \<and> (primary_ok (snd (snd (refresh_quote clob gamma a (cid, yes_tid, slg)))) \<longrightarrow>
            primary_failures (snd (snd (refresh_quote clob gamma a (cid, yes_tid, slg))))
              = (if h @ tokened [(cid, yes_tid, slg)] \<noteq> []
                    \<and> primary_fails clob (last (h @ tokened [(cid, yes_tid, slg)]))
                 then 1 else 0))"
  using assms
  by (auto simp: refresh_quote_def quote_calls_def primary_fails_def tokened_def Let_def
      two_in_a_row_snoc split: option.splits if_splits)

lemma refresh_loop_trace:
  assumes "primary_ok a = (\<not> two_in_a_row (primary_fails clob) h)"
    and "primary_ok a \<longrightarrow>
           primary_failures a = (if h \<noteq> [] \<and> primary_fails clob (last h) then 1 else 0)"
  shows "snd (refresh_loop clob gamma a s ds)
     = map (\<lambda>i. (fst (ds ! i),
                 quote_calls clob (two_in_a_row (primary_fails clob) (h @ tokened (take i ds)))
                   (ds ! i)))
         [0..<length ds]"
  using assms
proof (induction ds arbitrary: a s h)
  case Nil
  then show ?case by simp
next
  case (Cons d ds)
  obtain cid yes_tid slg where d: "d = (cid, yes_tid, slg)" by (cases d) auto
  let ?a1 = "snd (snd (refresh_quote clob gamma a d))"
  let ?h1 = "h @ tokened [d]"
  from refresh_loop_Cons [of clob gamma a s d ds] obtain s1 where
    run: "snd (refresh_loop clob gamma a s (d # ds))
         = (fst d, fst (snd (refresh_quote clob gamma a d)))
           # snd (refresh_loop clob gamma ?a1 s1 ds)"
    by blast
  note step = refresh_quote_step [OF Cons.prems, of gamma cid yes_tid slg, folded d]
  from step have c: "fst (snd (refresh_quote clob gamma a d))
      = quote_calls clob (two_in_a_row (primary_fails clob) h) d"
    by (rule conjunct1)
  from step have ok: "primary_ok ?a1 = (\<not> two_in_a_row (primary_fails clob) ?h1)"
    by (elim conjE)
  from step have fl: "primary_ok ?a1 \<longrightarrow>
      primary_failures ?a1 = (if ?h1 \<noteq> [] \<and> primary_fails clob (last ?h1) then 1 else 0)"
    by (elim conjE)
  have tk: "h @ tokened (take (Suc i) (d # ds)) = ?h1 @ tokened (take i ds)" for i
    by (simp add: d tokened_def)
  have "snd (refresh_loop clob gamma a s (d # ds))
      = (fst d, quote_calls clob (two_in_a_row (primary_fails clob) h) d)
        # map (\<lambda>i. (fst (ds ! i),
                 quote_calls clob (two_in_a_row (primary_fails clob) (?h1 @ tokened (take i ds)))
                   (ds ! i)))
         [0..<length ds]"
    unfolding run c Cons.IH [OF ok fl] ..
  also have "\<dots> = map (\<lambda>i. (fst ((d # ds) ! i),
                 quote_calls clob
                   (two_in_a_row (primary_fails clob) (h @ tokened (take i (d # ds))))
                   ((d # ds) ! i)))
         [0..<length (d # ds)]"
    unfolding length_Cons map_upt_Suc tk by (simp add: tokened_def)
  finally show ?case .
qed

text \<open>\<open>refresh_prices\<close> is the sweep of the specification: position by position, the
  primary source is asked first exactly when the position has a token id and no two
  positions in a row before it failed on the primary source. The trace depends on the
  positions and the sources only: every sweep starts from a clean state.\<close>

lemma refresh_prices_trace:
  "snd (refresh_prices clob gamma s) = sweep_by_consecutive clob (pos_data_of s)"
  using refresh_loop_trace [of fresh_arbiter clob "[]" gamma s "pos_data_of s"]
  by (simp add: refresh_prices_def sweep_by_consecutive_def fresh_arbiter_def)

text \<open>The arbiter state of step 4 of the cycle after the tokens \<open>h\<close>: the failure count is
  the number of failures, and the sweep is demoted from two failures on.\<close>

lemma cycle_quote_step:
  assumes "primary_ok a = (\<not> 2 \<le> length (filter (primary_fails clob) h))"
    and "primary_ok a \<longrightarrow> primary_failures a = length (filter (primary_fails clob) h)"
  shows "fst (snd (cycle_quote clob gamma a (cid, yes_tid, slg)))
           = quote_calls clob (2 \<le> length (filter (primary_fails clob) h)) (cid, yes_tid, slg)
       \<and> primary_ok (snd (snd (cycle_quote clob gamma a (cid, yes_tid, slg))))
           = (\<not> 2 \<le> length (filter (primary_fails clob) (h @ tokened [(cid, yes_tid, slg)])))
       \<and> (primary_ok (snd (snd (cycle_quote clob gamma a (cid, yes_tid, slg)))) \<longrightarrow>
            primary_failures (snd (snd (cycle_quote clob gamma a (cid, yes_tid, slg))))
              = length (filter (primary_fails clob) (h @ tokened [(cid, yes_tid, slg)])))"
  using assms
  by (auto simp: cycle_quote_def quote_calls_def primary_fails_def tokened_def Let_def
      split: option.splits if_splits)

lemma cycle_price_loop_trace:
  assumes "primary_ok a = (\<not> 2 \<le> length (filter (primary_fails clob) h))"
    and "primary_ok a \<longrightarrow> primary_failures a = length (filter (primary_fails clob) h)"
  shows "snd (cycle_price_loop clob gamma a pm ds)
     = map (\<lambda>i. (fst (ds ! i),
                 quote_calls clob
                   (2 \<le> length (filter (primary_fails clob) (h @ tokened (take i ds))))
                   (ds ! i)))
         [0..<length ds]"
  using assms
proof (induction ds arbitrary: a pm h)
  case Nil
  then show ?case by simp
next
  case (Cons d ds)
  obtain cid yes_tid slg where d: "d = (cid, yes_tid, slg)" by (cases d) auto
  let ?a1 = "snd (snd (cycle_quote clob gamma a d))"
  let ?h1 = "h @ tokened [d]"
  from cycle_price_loop_Cons [of clob gamma a pm d ds] obtain pm1 where
    run: "snd (cycle_price_loop clob gamma a pm (d # ds))
         = (fst d, fst (snd (cycle_quote clob gamma a d)))
           # snd (cycle_price_loop clob gamma ?a1 pm1 ds)"
    by blast
  note step = cycle_quote_step [OF Cons.prems, of gamma cid yes_tid slg, folded d]
  from step have c: "fst (snd (cycle_quote clob gamma a d))
      = quote_calls clob (2 \<le> length (filter (primary_fails clob) h)) d"
    by (rule conjunct1)
  from step have ok: "primary_ok ?a1 = (\<not> 2 \<le> length (filter (primary_fails clob) ?h1))"
    by (elim conjE)
  from step have fl: "primary_ok ?a1 \<longrightarrow>
      primary_failures ?a1 = length (filter (primary_fails clob) ?h1)"
    by (elim conjE)
  have tk: "h @ tokened (take (Suc i) (d # ds)) = ?h1 @ tokened (take i ds)" for i
    by (simp add: d tokened_def)
  have "snd (cycle_price_loop clob gamma a pm (d # ds))
      = (fst d, quote_calls clob (2 \<le> length (filter (primary_fails clob) h)) d)
        # map (\<lambda>i. (fst (ds ! i),
                 quote_calls clob
                   (2 \<le> length (filter (primary_fails clob) (?h1 @ tokened (take i ds))))
                   (ds ! i)))
         [0..<length ds]"
    unfolding run c Cons.IH [OF ok fl] ..
  also have "\<dots> = map (\<lambda>i. (fst ((d # ds) ! i),
                 quote_calls clob
                   (2 \<le> length (filter (primary_fails clob) (h @ tokened (take i (d # ds)))))
                   ((d # ds) ! i)))
         [0..<length (d # ds)]"
    unfolding length_Cons map_upt_Suc tk by (simp add: tokened_def)
  finally show ?case .
qed

text \<open>Step 4 of the cycle: the primary source is asked first exactly when the position has
  a token id and fewer than two positions before it failed on the primary source, in a row
  or not.\<close>

lemma cycle_prices_trace:
  "snd (cycle_prices clob gamma s) = sweep_by_total clob (pos_data_of s)"
  using cycle_price_loop_trace [of fresh_arbiter clob "[]" gamma "[]" "pos_data_of s"]
  by (simp add: cycle_prices_def sweep_by_total_def fresh_arbiter_def)


text \<open>
  Claim C6. The claim reads: positions are quoted from the primary source first, and the
  sweep turns to the fallback source alone after two consecutive primary failures.
  \<open>refresh_prices\<close> does this (lemma \<open>refresh_prices_trace\<close>), step 4 of the cycle does
  not: its failure count is never set back by a usable primary quote, so it turns to the
  fallback alone after any two failures (lemma \<open>cycle_prices_trace\<close>). On four open
  positions for which the primary source fails, answers, fails (a yes price of 0.60) and
  answers, no two failures are consecutive; \<open>refresh_prices\<close> asks the primary source for
  the fourth position, the cycle asks the fallback source only. In both sweeps the arbiter
  state is local to the call, so no demotion is carried to the next sweep.
\<close>

theorem cycle_demotes_on_scattered_failures:
  "pos_data_of four_open
     = [(''a'', Some ''a'', ''a''), (''b'', Some ''b'', ''b''), (''c'', Some ''c'', ''c''),
        (''d'', Some ''d'', ''d'')]
   \<and> primary_fails flaky ''a'' \<and> \<not> primary_fails flaky ''b''
   \<and> primary_fails flaky ''c'' \<and> \<not> primary_fails flaky ''d''
   \<and> \<not> two_in_a_row (primary_fails flaky) [''a'', ''b'', ''c'']
   \<and> snd (cycle_prices flaky gamma_30 four_open)
       = [(''a'', [CallClob ''a'', CallGamma ''a'']), (''b'', [CallClob ''b'']),
          (''c'', [CallClob ''c'', CallGamma ''c'']), (''d'', [CallGamma ''d''])]
   \<and> snd (refresh_prices flaky gamma_30 four_open)
       = [(''a'', [CallClob ''a'', CallGamma ''a'']), (''b'', [CallClob ''b'']),
          (''c'', [CallClob ''c'', CallGamma ''c'']), (''d'', [CallClob ''d''])]"
proof (intro conjI)
  show pd: "pos_data_of four_open
     = [(''a'', Some ''a'', ''a''), (''b'', Some ''b'', ''b''), (''c'', Some ''c'', ''c''),
        (''d'', Some ''d'', ''d'')]"
    by (simp add: pos_data_of_def four_open_def held_def candidate_def)
  show "primary_fails flaky ''a''" by (simp add: primary_fails_def flaky_def)
  show "\<not> primary_fails flaky ''b''" by (simp add: primary_fails_def flaky_def)
  show "primary_fails flaky ''c''" by (simp add: primary_fails_def flaky_def)
  show "\<not> primary_fails flaky ''d''" by (simp add: primary_fails_def flaky_def)
  show "\<not> two_in_a_row (primary_fails flaky) [''a'', ''b'', ''c'']"
    by (simp add: primary_fails_def flaky_def)
  show "snd (cycle_prices flaky gamma_30 four_open)
       = [(''a'', [CallClob ''a'', CallGamma ''a'']), (''b'', [CallClob ''b'']),
          (''c'', [CallClob ''c'', CallGamma ''c'']), (''d'', [CallGamma ''d''])]"
    unfolding cycle_prices_def pd
    by (simp add: cycle_quote_def flaky_def gamma_30_def fresh_arbiter_def Let_def)
  show "snd (refresh_prices flaky gamma_30 four_open)
       = [(''a'', [CallClob ''a'', CallGamma ''a'']), (''b'', [CallClob ''b'']),
          (''c'', [CallClob ''c'', CallGamma ''c'']), (''d'', [CallClob ''d''])]"
    unfolding refresh_prices_def pd
    by (simp add: refresh_quote_def flaky_def gamma_30_def fresh_arbiter_def Let_def
        four_open_def held_def candidate_def)
qed

end
